theory Spec2Isabelle
  imports Main "HOL-Library.Sublist"
begin

section \<open>Strings and paths\<close>

text \<open>
  Strings are ASCII byte strings. \<open>str_lower\<close> is Python's \<open>str.lower\<close> on them: the
  letters A to Z go to a to z and every other character stays.
\<close>

definition lower_char :: "char \<Rightarrow> char" where
  "lower_char c =
     (case map_of (zip ''ABCDEFGHIJKLMNOPQRSTUVWXYZ'' ''abcdefghijklmnopqrstuvwxyz'') c of
        Some l \<Rightarrow> l
      | None \<Rightarrow> c)"

definition str_lower :: "string \<Rightarrow> string" where
  "str_lower s = map lower_char s"

text \<open>\<open>str_split sep s\<close> is \<open>s.split(sep)\<close> for a one-character separator.\<close>

fun str_split :: "char \<Rightarrow> string \<Rightarrow> string list" where
  "str_split sep [] = [[]]"
| "str_split sep (c # cs) =
     (if c = sep then [] # str_split sep cs
      else (case str_split sep cs of
              [] \<Rightarrow> [[c]]
            | p # ps \<Rightarrow> (c # p) # ps))"

definition is_space :: "char \<Rightarrow> bool" where
  "is_space c = (c \<in> set [CHR '' '', CHR 0x09, CHR 0x0A, CHR 0x0B, CHR 0x0C, CHR 0x0D,
                            CHR 0x1C, CHR 0x1D, CHR 0x1E, CHR 0x1F])"

definition str_strip :: "string \<Rightarrow> string" where
  "str_strip s = rev (dropWhile is_space (rev (dropWhile is_space s)))"

text \<open>
  \<open>os.path.join\<close> of posixpath: a component that starts with a slash discards what came
  before it; otherwise it is appended, after a slash unless the path so far is empty or
  already ends with one.
\<close>

definition join_step :: "string \<Rightarrow> string \<Rightarrow> string" where
  "join_step p b =
     (if b \<noteq> [] \<and> hd b = CHR ''/'' then b
      else if p = [] \<or> last p = CHR ''/'' then p @ b
      else p @ ''/'' @ b)"

definition os_path_join :: "string \<Rightarrow> string list \<Rightarrow> string" where
  "os_path_join a ps = foldl join_step a ps"

section \<open>Filesystem\<close>

text \<open>
  The filesystem is a map from resolved paths (lists of component names below the root) to
  node kinds, together with the working directory of the process. A path string is resolved
  lexically: relative paths start at the working directory, empty and \<open>.\<close> components are
  dropped, \<open>..\<close> steps to the parent. Symbolic links and permissions are outside the model.
\<close>

datatype node = File | Dir

record filesystem =
  nodes :: "string list \<Rightarrow> node option"
  cwd :: "string list"

definition resolve_step :: "string list \<Rightarrow> string \<Rightarrow> string list" where
  "resolve_step acc c =
     (if c = [] \<or> c = ''.'' then acc
      else if c = ''..'' then butlast acc
      else acc @ [c])"

definition resolve :: "filesystem \<Rightarrow> string \<Rightarrow> string list" where
  "resolve f p =
     foldl resolve_step (if p \<noteq> [] \<and> hd p = CHR ''/'' then [] else cwd f)
       (str_split CHR ''/'' p)"

text \<open>
  A filesystem is well formed when the root is a directory and every node lies in a
  directory.
\<close>

definition wf_filesystem :: "filesystem \<Rightarrow> bool" where
  "wf_filesystem f \<longleftrightarrow>
     nodes f [] = Some Dir \<and> (\<forall>q c. nodes f (q @ [c]) \<noteq> None \<longrightarrow> nodes f q = Some Dir)"

section \<open>Errors, outcomes and the world\<close>

datatype error =
    ValueError string
  | FileExistsError string
  | FileNotFoundError string
  | NotADirectoryError string
  | AttributeError string
  | UnknownObjectException string
  | BadCredentialsException

text \<open>
  A call returns a value, raises, or never returns (a blocking \<open>acquire\<close> that is never
  served).
\<close>

datatype 'a outcome = Return 'a | Raise error | Hang

datatype level = DEBUG | INFO | ERROR | CRITICAL

datatype api_call =
    GetSelfRepos
  | GetUserRepos string
  | GetOrgRepos string
  | GetUserGists string

datatype event =
    Log level string
  | Subprocess string int
  | Api api_call
  | SetupLogging string
  | ThreadStarted string
  | ThreadException error

text \<open>
  \<open>BoundedSemaphore\<close>: the current value and the initial value that \<open>release\<close> may not
  exceed.
\<close>

record semaphore =
  permits :: int
  initial_value :: int

record world =
  fs :: filesystem
  trace :: "event list"
  thread_limiter :: semaphore

type_synonym 'a action = "world \<Rightarrow> 'a outcome \<times> world"

definition return :: "'a \<Rightarrow> 'a action" where
  "return x w = (Return x, w)"

definition raise :: "error \<Rightarrow> 'a action" where
  "raise e w = (Raise e, w)"

definition and_then :: "'a action \<Rightarrow> ('a \<Rightarrow> 'b action) \<Rightarrow> 'b action" where
  "and_then m k w =
     (case m w of
        (Return x, w') \<Rightarrow> k x w'
      | (Raise e, w') \<Rightarrow> (Raise e, w')
      | (Hang, w') \<Rightarrow> (Hang, w'))"

definition when_do :: "bool \<Rightarrow> unit action \<Rightarrow> unit action" where
  "when_do b m = (if b then m else return ())"

definition emit :: "event \<Rightarrow> unit action" where
  "emit e w = (Return (), w\<lparr>trace := trace w @ [e]\<rparr>)"

definition logger :: "level \<Rightarrow> string \<Rightarrow> unit action" where
  "logger l msg = emit (Log l msg)"

subsection \<open>Library calls on the filesystem\<close>

text \<open>\<open>os.path.exists\<close>: false for the empty string, otherwise whether the node is there.\<close>

definition path_exists :: "filesystem \<Rightarrow> string \<Rightarrow> bool" where
  "path_exists f p \<longleftrightarrow> p \<noteq> [] \<and> nodes f (resolve f p) \<noteq> None"

definition os_path_exists :: "string \<Rightarrow> bool action" where
  "os_path_exists p w = (Return (path_exists (fs w) p), w)"

text \<open>
  \<open>os.makedirs\<close> (with \<open>exist_ok\<close> left false): fails when the path exists or when one of
  its ancestors is a file; otherwise the path and its missing ancestors become directories.
\<close>

definition makedirs_nodes ::
  "string list \<Rightarrow> (string list \<Rightarrow> node option) \<Rightarrow> (string list \<Rightarrow> node option)" where
  "makedirs_nodes q n = (\<lambda>r. if prefix r q \<and> n r = None then Some Dir else n r)"

definition os_makedirs :: "string \<Rightarrow> unit action" where
  "os_makedirs p w =
     (let f = fs w; q = resolve f p in
      if p = [] then (Raise (FileNotFoundError p), w)
      else if nodes f q \<noteq> None then (Raise (FileExistsError p), w)
      else if \<exists>r \<in> set (prefixes q). nodes f r = Some File then (Raise (NotADirectoryError p), w)
      else (Return (), w\<lparr>fs := f\<lparr>nodes := makedirs_nodes q (nodes f)\<rparr>\<rparr>))"

text \<open>
  \<open>shutil.rmtree\<close>: removes a directory with everything below it; raises on a file and on
  a missing path.
\<close>

definition rmtree_nodes ::
  "string list \<Rightarrow> (string list \<Rightarrow> node option) \<Rightarrow> (string list \<Rightarrow> node option)" where
  "rmtree_nodes q n = (\<lambda>r. if prefix q r then None else n r)"

definition shutil_rmtree :: "string \<Rightarrow> unit action" where
  "shutil_rmtree p w =
     (let f = fs w; q = resolve f p in
      case nodes f q of
        None \<Rightarrow> (Raise (FileNotFoundError p), w)
      | Some File \<Rightarrow> (Raise (NotADirectoryError p), w)
      | Some Dir \<Rightarrow> (Return (), w\<lparr>fs := f\<lparr>nodes := rmtree_nodes q (nodes f)\<rparr>\<rparr>))"

section \<open>The archiver object\<close>

record repo =
  owner_login :: string
  name :: string
  ssh_url :: string

record gist =
  gist_owner_login :: string
  gist_id :: string
  html_url :: string

datatype operation = Clone | Pull

datatype repo_context = Personal | User | Orgs

text \<open>
  The fields of \<open>GithubArchive\<close>. \<open>users\<close>, \<open>orgs\<close> and \<open>gists\<close> are lists of names;
  the empty list stands for the empty string the constructor stores when the parameter is
  absent or empty (both are false in a condition and both iterate over nothing).
  \<open>authenticated_login\<close> is \<open>authenticated_user.login\<close>, absent without a token.
\<close>

record github_archive =
  view :: bool
  clone :: bool
  pull :: bool
  users :: "string list"
  orgs :: "string list"
  gists :: "string list"
  timeout :: int
  threads :: int
  token :: "string option"
  location :: string
  authenticated_login :: "string option"
  authenticated_username :: "string option"

text \<open>Truth value of an optional string: \<open>None\<close> and the empty string are false.\<close>

definition truthy :: "string option \<Rightarrow> bool" where
  "truthy s = (case s of None \<Rightarrow> False | Some t \<Rightarrow> t \<noteq> [])"

definition name_list :: "string option \<Rightarrow> string list" where
  "name_list s = (case s of None \<Rightarrow> [] | Some t \<Rightarrow> if t = [] then [] else str_split CHR '','' (str_lower t))"

text \<open>
  The constructor. \<open>login_of\<close> is the forge's answer to \<open>Github(token).get_user().login\<close>.
\<close>

definition init ::
  "(string \<Rightarrow> error + string) \<Rightarrow> bool \<Rightarrow> bool \<Rightarrow> bool \<Rightarrow> string option \<Rightarrow> string option \<Rightarrow>
   string option \<Rightarrow> int \<Rightarrow> int \<Rightarrow> string option \<Rightarrow> string \<Rightarrow> error + github_archive" where
  "init login_of view' clone' pull' users' orgs' gists' timeout' threads' token' location' =
     (let self = \<lparr>view = view', clone = clone', pull = pull',
                  users = name_list users', orgs = name_list orgs', gists = name_list gists',
                  timeout = timeout', threads = threads', token = token', location = location',
                  authenticated_login = None, authenticated_username = None\<rparr>
      in if truthy token' then
           (case login_of (the token') of
              Inl e \<Rightarrow> Inl e
            | Inr login \<Rightarrow>
                Inr (self\<lparr>authenticated_login := Some login,
                          authenticated_username := Some (str_lower login)\<rparr>))
         else Inr self)"

definition no_operation_message :: string where
  "no_operation_message =
     ''A git operation must be specified when a list of users or orgs is provided.''"

definition no_list_message :: string where
  "no_list_message = ''A list must be provided when a git operation is specified.''"

definition initialize_project :: "github_archive \<Rightarrow> unit action" where
  "initialize_project self =
     and_then (os_path_exists (location self)) (\<lambda>present.
     and_then (when_do (\<not> present)
                 (and_then (os_makedirs (os_path_join (location self) [''repos''])) (\<lambda>_.
                  os_makedirs (os_path_join (location self) [''gists''])))) (\<lambda>_.
     if (users self \<noteq> [] \<or> orgs self \<noteq> [] \<or> gists self \<noteq> [])
        \<and> \<not> (view self \<or> clone self \<or> pull self) then
       and_then (logger CRITICAL no_operation_message) (\<lambda>_.
       raise (ValueError no_operation_message))
     else if \<not> (users self \<noteq> [] \<or> orgs self \<noteq> [] \<or> gists self \<noteq> [])
        \<and> (view self \<or> clone self \<or> pull self) then
       and_then (logger CRITICAL no_list_message) (\<lambda>_.
       raise (ValueError no_list_message))
     else return ()))"

definition authenticated_user_in_users :: "github_archive \<Rightarrow> error + bool" where
  "authenticated_user_in_users self =
     (case authenticated_login self of
        None \<Rightarrow> Inl (AttributeError ''login'')
      | Some login \<Rightarrow> Inr (str_lower login \<in> set (users self)))"

section \<open>The outside world\<close>

text \<open>
  What the program does not contain is a parameter: the behaviour of the shell command
  that \<open>subprocess.run\<close> starts (its result and what it does to the filesystem, which may
  depend on everything that happened before), the text of a \<open>CalledProcessError\<close>, the
  forge's answers, the logging set-up of another module and the elapsed time printed at
  the end.
\<close>

datatype proc_result = Exited int | TimedOut

datatype proc_exception = TimeoutExpired | CalledProcessError string

record env =
  shell :: "string \<Rightarrow> world \<Rightarrow> proc_result \<times> filesystem"
  called_process_error_str :: "string \<Rightarrow> int \<Rightarrow> string"
  self_repos :: "repo list"
  user_repos :: "string \<Rightarrow> error + repo list"
  org_repos :: "string \<Rightarrow> error + repo list"
  user_gists :: "string \<Rightarrow> error + gist list"
  setup_logging :: "string \<Rightarrow> filesystem \<Rightarrow> filesystem"
  execution_time :: string

definition nl :: string where
  "nl = [CHR 0x0A]"

subsection \<open>Semaphore, subprocess, try and finally\<close>

definition bounded_semaphore :: "int \<Rightarrow> unit action" where
  "bounded_semaphore n w =
     (if n < 0 then (Raise (ValueError ''semaphore initial value must be >= 0''), w)
      else (Return (), w\<lparr>thread_limiter := \<lparr>permits = n, initial_value = n\<rparr>\<rparr>))"

text \<open>
  A blocking \<open>acquire\<close>. In a run where no other thread is active, a semaphore without a
  permit is never served.
\<close>

definition acquire :: "unit action" where
  "acquire w =
     (let s = thread_limiter w in
      if 0 < permits s then (Return (), w\<lparr>thread_limiter := s\<lparr>permits := permits s - 1\<rparr>\<rparr>)
      else (Hang, w))"

definition release :: "unit action" where
  "release w =
     (let s = thread_limiter w in
      if initial_value s \<le> permits s then
        (Raise (ValueError ''Semaphore released too many times''), w)
      else (Return (), w\<lparr>thread_limiter := s\<lparr>permits := permits s + 1\<rparr>\<rparr>))"

definition try_finally :: "'a action \<Rightarrow> unit action \<Rightarrow> 'a action" where
  "try_finally body fin w =
     (case body w of
        (Return x, w1) \<Rightarrow>
          (case fin w1 of
             (Return _, w2) \<Rightarrow> (Return x, w2)
           | (Raise e, w2) \<Rightarrow> (Raise e, w2)
           | (Hang, w2) \<Rightarrow> (Hang, w2))
      | (Raise e, w1) \<Rightarrow>
          (case fin w1 of
             (Return _, w2) \<Rightarrow> (Raise e, w2)
           | (Raise e', w2) \<Rightarrow> (Raise e', w2)
           | (Hang, w2) \<Rightarrow> (Hang, w2))
      | (Hang, w1) \<Rightarrow> (Hang, w1))"

text \<open>
  \<open>subprocess.run(..., shell=True, check=True, timeout=t)\<close>. Its two exceptions are
  returned as values, since both callers catch them.
\<close>

definition subprocess_run :: "env \<Rightarrow> string \<Rightarrow> int \<Rightarrow> (proc_exception + unit) action" where
  "subprocess_run env cmd t w =
     (let w1 = w\<lparr>trace := trace w @ [Subprocess cmd t]\<rparr>;
          (r, f) = shell env cmd w1;
          w2 = w1\<lparr>fs := f\<rparr>
      in case r of
           TimedOut \<Rightarrow> (Return (Inl TimeoutExpired), w2)
         | Exited rc \<Rightarrow>
             if rc = 0 then (Return (Inr ()), w2)
             else (Return (Inl (CalledProcessError (called_process_error_str env cmd rc))), w2))"

section \<open>Archiving one repository or gist\<close>

definition op_name :: "operation \<Rightarrow> string" where
  "op_name operation = (case operation of Clone \<Rightarrow> ''clone'' | Pull \<Rightarrow> ''pull'')"

text \<open>
  The \<open>commands\<close> dictionary of \<open>archive_repo\<close> looked up at the operation, and the
  one of \<open>archive_gist\<close>.
\<close>

definition repo_commands :: "repo \<Rightarrow> string \<Rightarrow> operation \<Rightarrow> string" where
  "repo_commands repo repo_path operation =
     (case operation of
        Clone \<Rightarrow> ''git clone '' @ ssh_url repo @ '' '' @ repo_path
      | Pull \<Rightarrow> ''cd '' @ repo_path @ '' && git pull --rebase'')"

definition gist_commands :: "gist \<Rightarrow> string \<Rightarrow> operation \<Rightarrow> string" where
  "gist_commands gist gist_path operation =
     (case operation of
        Clone \<Rightarrow> ''git clone '' @ html_url gist @ '' '' @ gist_path
      | Pull \<Rightarrow> ''cd '' @ gist_path @ '' && git pull --rebase'')"

definition archive_repo ::
  "env \<Rightarrow> github_archive \<Rightarrow> repo \<Rightarrow> string \<Rightarrow> operation \<Rightarrow> unit action" where
  "archive_repo env self repo repo_path operation =
     and_then (os_path_exists repo_path) (\<lambda>present.
     if present \<and> operation = Clone then return ()
     else
       (let git_command = repo_commands repo repo_path operation
        in try_finally
             (and_then acquire (\<lambda>_.
              and_then (subprocess_run env git_command (timeout self)) (\<lambda>r.
              case r of
                Inr _ \<Rightarrow>
                  logger INFO (''Repo: '' @ name repo @ '' '' @ op_name operation @ '' success!'')
              | Inl TimeoutExpired \<Rightarrow>
                  and_then (logger ERROR
                              (''Git operation timed out archiving '' @ name repo @ ''.'')) (\<lambda>_.
                  and_then (os_path_exists repo_path) (\<lambda>left_over.
                  when_do left_over (shutil_rmtree repo_path)))
              | Inl (CalledProcessError err) \<Rightarrow>
                  and_then (logger ERROR
                              (''Failed to '' @ op_name operation @ '' '' @ name repo @ nl @ err)) (\<lambda>_.
                  and_then (os_path_exists repo_path) (\<lambda>left_over.
                  when_do left_over (shutil_rmtree repo_path))))))
             release))"

definition archive_gist ::
  "env \<Rightarrow> github_archive \<Rightarrow> gist \<Rightarrow> string \<Rightarrow> operation \<Rightarrow> unit action" where
  "archive_gist env self gist gist_path operation =
     and_then (os_path_exists gist_path) (\<lambda>present.
     if present \<and> operation = Clone then return ()
     else
       (let git_command = gist_commands gist gist_path operation
        in try_finally
             (and_then acquire (\<lambda>_.
              and_then (subprocess_run env git_command (timeout self)) (\<lambda>r.
              case r of
                Inr _ \<Rightarrow>
                  logger INFO (''Gist: '' @ gist_id gist @ '' '' @ op_name operation @ '' success!'')
              | Inl TimeoutExpired \<Rightarrow>
                  and_then (logger ERROR
                              (''Git operation timed out archiving '' @ gist_id gist @ ''.'')) (\<lambda>_.
                  and_then (os_path_exists gist_path) (\<lambda>left_over.
                  when_do left_over (shutil_rmtree gist_path)))
              | Inl (CalledProcessError err) \<Rightarrow>
                  and_then (logger ERROR
                              (''Failed to '' @ op_name operation @ '' '' @ gist_id gist @ nl @ err)) (\<lambda>_.
                  and_then (os_path_exists gist_path) (\<lambda>left_over.
                  when_do left_over (shutil_rmtree gist_path))))))
             release))"

section \<open>Starting the threads of a pass\<close>

datatype target = RepoTarget repo | GistTarget gist

text \<open>The arguments of one \<open>Thread\<close>: the target, its local path and the operation.\<close>

record job =
  job_target :: target
  job_path :: string
  job_operation :: operation

text \<open>
  The loop of \<open>iterate_repos_to_archive\<close> that fills \<open>thread_list\<close>: the threads it
  creates and starts, in order.
\<close>

fun repo_threads :: "github_archive \<Rightarrow> repo list \<Rightarrow> repo_context \<Rightarrow> operation \<Rightarrow> job list" where
  "repo_threads self [] context operation = []"
| "repo_threads self (repo # rest) context operation =
     (let repo_owner_username = str_lower (owner_login repo) in
      if truthy (token self) \<and> Some repo_owner_username \<noteq> authenticated_username self
         \<and> context = Personal then
        repo_threads self rest context operation
      else
        \<lparr>job_target = RepoTarget repo,
         job_path = os_path_join (location self) [''repos'', repo_owner_username, name repo],
         job_operation = operation\<rparr> # repo_threads self rest context operation)"

fun gist_threads :: "github_archive \<Rightarrow> gist list \<Rightarrow> operation \<Rightarrow> job list" where
  "gist_threads self [] operation = []"
| "gist_threads self (gist # rest) operation =
     \<lparr>job_target = GistTarget gist,
      job_path = os_path_join (location self) [''gists'', gist_id gist],
      job_operation = operation\<rparr> # gist_threads self rest operation"

text \<open>The body of a thread: the \<open>target\<close> callable applied to its arguments.\<close>

definition thread_body :: "env \<Rightarrow> github_archive \<Rightarrow> job \<Rightarrow> unit action" where
  "thread_body env self j =
     (case job_target j of
        RepoTarget repo \<Rightarrow> archive_repo env self repo (job_path j) (job_operation j)
      | GistTarget gist \<Rightarrow> archive_gist env self gist (job_path j) (job_operation j))"

section \<open>A pass, with its threads run one after the other\<close>

text \<open>
  \<open>run_thread\<close> is \<open>Thread.start\<close> followed by the thread's body up to its end. An
  exception that leaves the body ends that thread only; the interpreter reports it and the
  starting thread goes on.
\<close>

definition run_thread :: "unit action \<Rightarrow> unit action" where
  "run_thread body w =
     (case body w of
        (Return _, w') \<Rightarrow> (Return (), w')
      | (Raise e, w') \<Rightarrow> (Return (), w'\<lparr>trace := trace w' @ [ThreadException e]\<rparr>)
      | (Hang, w') \<Rightarrow> (Hang, w'))"

fun run_jobs :: "env \<Rightarrow> github_archive \<Rightarrow> job list \<Rightarrow> unit action" where
  "run_jobs env self [] = return ()"
| "run_jobs env self (j # js) =
     and_then (run_thread (thread_body env self j)) (\<lambda>_. run_jobs env self js)"

text \<open>
  The two passes under the schedule in which every thread finishes before the next one
  starts, which the semaphore admits whenever it has a permit. A thread that waits for a
  permit for ever makes the final \<open>join\<close> wait for ever. The interleaved executions of the
  same threads are the subject of the last section.
\<close>

definition iterate_repos_to_archive ::
  "env \<Rightarrow> github_archive \<Rightarrow> repo list \<Rightarrow> repo_context \<Rightarrow> operation \<Rightarrow> unit action" where
  "iterate_repos_to_archive env self repos context operation =
     and_then (bounded_semaphore (threads self)) (\<lambda>_.
     run_jobs env self (repo_threads self repos context operation))"

definition iterate_gists_to_archive ::
  "env \<Rightarrow> github_archive \<Rightarrow> gist list \<Rightarrow> operation \<Rightarrow> unit action" where
  "iterate_gists_to_archive env self gs operation =
     and_then (bounded_semaphore (threads self)) (\<lambda>_.
     run_jobs env self (gist_threads self gs operation))"

section \<open>Enumeration and viewing\<close>

definition get_personal_repos :: "env \<Rightarrow> repo list action" where
  "get_personal_repos env =
     and_then (emit (Api GetSelfRepos)) (\<lambda>_.
     and_then (logger DEBUG ''Personal repos retrieved!'') (\<lambda>_.
     return (self_repos env)))"

text \<open>
  The three enumerations share their shape: one forge call per configured name, stripped
  of surrounding blanks, and the answers concatenated in order. A failing call ends the
  run.
\<close>

fun fetch_all ::
  "(string \<Rightarrow> api_call) \<Rightarrow> (string \<Rightarrow> error + 'a list) \<Rightarrow> string \<Rightarrow> string list \<Rightarrow> 'a list action" where
  "fetch_all call ask what [] = return []"
| "fetch_all call ask what (n # ns) =
     (let formatted_name = str_strip n in
      and_then (emit (Api (call formatted_name))) (\<lambda>_.
      case ask formatted_name of
        Inl e \<Rightarrow> raise e
      | Inr found \<Rightarrow>
          and_then (logger DEBUG (formatted_name @ what)) (\<lambda>_.
          and_then (fetch_all call ask what ns) (\<lambda>more.
          return (found @ more)))))"

definition get_all_user_repos :: "env \<Rightarrow> github_archive \<Rightarrow> repo list action" where
  "get_all_user_repos env self =
     fetch_all GetUserRepos (user_repos env) '' repos retrieved!'' (users self)"

definition get_all_org_repos :: "env \<Rightarrow> github_archive \<Rightarrow> repo list action" where
  "get_all_org_repos env self =
     fetch_all GetOrgRepos (org_repos env) '' repos retrieved!'' (orgs self)"

definition get_all_gists :: "env \<Rightarrow> github_archive \<Rightarrow> gist list action" where
  "get_all_gists env self =
     fetch_all GetUserGists (user_gists env) '' gists retrieved!'' (gists self)"

fun view_repos :: "repo list \<Rightarrow> unit action" where
  "view_repos [] = return ()"
| "view_repos (repo # rest) =
     and_then (logger INFO (owner_login repo @ ''/'' @ name repo)) (\<lambda>_. view_repos rest)"

fun view_gists :: "gist list \<Rightarrow> unit action" where
  "view_gists [] = return ()"
| "view_gists (gist # rest) =
     and_then (logger INFO (gist_owner_login gist @ ''/'' @ gist_id gist)) (\<lambda>_. view_gists rest)"

section \<open>The run\<close>

text \<open>
  \<open>list.remove\<close>: removes the first occurrence and raises when there is none.
\<close>

definition list_remove :: "string option \<Rightarrow> string list \<Rightarrow> string list action" where
  "list_remove x xs =
     (case x of
        None \<Rightarrow> raise (ValueError ''list.remove(x): x not in list'')
      | Some y \<Rightarrow>
          if y \<in> set xs then return (remove1 y xs)
          else raise (ValueError ''list.remove(x): x not in list''))"

text \<open>
  Line 59 names the method \<open>authenticated_user_in_users\<close> without calling it. The
  condition therefore tests the bound method object, which is true whatever the method
  would return.
\<close>

definition bound_method_truth :: "(github_archive \<Rightarrow> error + bool) \<Rightarrow> bool" where
  "bound_method_truth m = True"

text \<open>
  \<open>run\<close> returns the object as it is at the end: the personal block replaces its
  \<open>users\<close> list.
\<close>

definition run :: "env \<Rightarrow> github_archive \<Rightarrow> github_archive action" where
  "run env self0 =
     and_then (initialize_project self0) (\<lambda>_.
     and_then (\<lambda>w. (Return (), w\<lparr>fs := setup_logging env (location self0) (fs w),
                                    trace := trace w @ [SetupLogging (location self0)]\<rparr>)) (\<lambda>_.
     and_then (logger INFO (''# GitHub Archive started...'' @ nl)) (\<lambda>_.
     and_then
       (if truthy (token self0) \<and> bound_method_truth authenticated_user_in_users
           \<and> users self0 \<noteq> [] then
          and_then (logger INFO (''# Making API call to GitHub for personal repos...'' @ nl)) (\<lambda>_.
          and_then (get_personal_repos env) (\<lambda>personal_repos.
          and_then (when_do (view self0)
                      (and_then (logger INFO (''# Viewing user repos...'' @ nl)) (\<lambda>_.
                       view_repos personal_repos))) (\<lambda>_.
          and_then (when_do (clone self0)
                      (and_then (logger INFO (''# Cloning missing personal repos...'' @ nl)) (\<lambda>_.
                       iterate_repos_to_archive env self0 personal_repos Personal Clone))) (\<lambda>_.
          and_then (when_do (pull self0)
                      (and_then (logger INFO (''# Pulling changes to personal repos...'' @ nl)) (\<lambda>_.
                       iterate_repos_to_archive env self0 personal_repos Personal Pull))) (\<lambda>_.
          and_then (list_remove (authenticated_username self0) (users self0)) (\<lambda>remaining.
          return (self0\<lparr>users := remaining\<rparr>)))))))
        else return self0) (\<lambda>self.
     and_then (when_do (users self \<noteq> [] \<and> 0 < length (users self))
                 (and_then (logger INFO (''# Making API calls to GitHub for user repos...'' @ nl)) (\<lambda>_.
                  and_then (get_all_user_repos env self) (\<lambda>user_repos.
                  and_then (when_do (view self)
                              (and_then (logger INFO (''# Viewing user repos...'' @ nl)) (\<lambda>_.
                               view_repos user_repos))) (\<lambda>_.
                  and_then (when_do (clone self)
                              (and_then (logger INFO (''# Cloning missing user repos...'' @ nl)) (\<lambda>_.
                               iterate_repos_to_archive env self user_repos User Clone))) (\<lambda>_.
                  when_do (pull self)
                    (and_then (logger INFO (''# Pulling changes to user repos...'' @ nl)) (\<lambda>_.
                     iterate_repos_to_archive env self user_repos User Pull)))))))) (\<lambda>_.
     and_then (when_do (orgs self \<noteq> [])
                 (and_then (logger INFO (''# Making API calls to GitHub for org repos...'' @ nl)) (\<lambda>_.
                  and_then (get_all_org_repos env self) (\<lambda>org_repos.
                  and_then (when_do (view self)
                              (and_then (logger INFO (''# Viewing org repos...'' @ nl)) (\<lambda>_.
                               view_repos org_repos))) (\<lambda>_.
                  and_then (when_do (clone self)
                              (and_then (logger INFO (''# Cloning missing org repos...'' @ nl)) (\<lambda>_.
                               iterate_repos_to_archive env self org_repos Orgs Clone))) (\<lambda>_.
                  when_do (pull self)
                    (and_then (logger INFO (''# Pulling changes to org repos...'' @ nl)) (\<lambda>_.
                     iterate_repos_to_archive env self org_repos Orgs Pull)))))))) (\<lambda>_.
     and_then (when_do (gists self \<noteq> [])
                 (and_then (logger INFO (''# Making API call to GitHub for gists...'' @ nl)) (\<lambda>_.
                  and_then (get_all_gists env self) (\<lambda>found_gists.
                  and_then (when_do (view self)
                              (and_then (logger INFO (''# Viewing gists...'' @ nl)) (\<lambda>_.
                               view_gists found_gists))) (\<lambda>_.
                  and_then (when_do (clone self)
                              (and_then (logger INFO (''# Cloning missing gists...'' @ nl)) (\<lambda>_.
                               iterate_gists_to_archive env self found_gists Clone))) (\<lambda>_.
                  when_do (pull self)
                    (and_then (logger INFO (''# Pulling changes to gists...'' @ nl)) (\<lambda>_.
                     iterate_gists_to_archive env self found_gists Pull)))))))) (\<lambda>_.
     and_then (logger INFO (''GitHub Archive complete! Execution time: ''
                             @ execution_time env @ ''.'' @ nl)) (\<lambda>_.
     return self))))))))"

section \<open>The threads of a pass, interleaved\<close>

text \<open>
  The part of \<open>archive_repo\<close> and \<open>archive_gist\<close> between \<open>acquire\<close> and \<open>release\<close>:
  the subprocess and the two handlers.
\<close>

definition repo_attempt ::
  "env \<Rightarrow> github_archive \<Rightarrow> repo \<Rightarrow> string \<Rightarrow> operation \<Rightarrow> unit action" where
  "repo_attempt env self repo repo_path operation =
     and_then (subprocess_run env (repo_commands repo repo_path operation) (timeout self)) (\<lambda>r.
     case r of
       Inr _ \<Rightarrow>
         logger INFO (''Repo: '' @ name repo @ '' '' @ op_name operation @ '' success!'')
     | Inl TimeoutExpired \<Rightarrow>
         and_then (logger ERROR
                     (''Git operation timed out archiving '' @ name repo @ ''.'')) (\<lambda>_.
         and_then (os_path_exists repo_path) (\<lambda>left_over.
         when_do left_over (shutil_rmtree repo_path)))
     | Inl (CalledProcessError err) \<Rightarrow>
         and_then (logger ERROR
                     (''Failed to '' @ op_name operation @ '' '' @ name repo @ nl @ err)) (\<lambda>_.
         and_then (os_path_exists repo_path) (\<lambda>left_over.
         when_do left_over (shutil_rmtree repo_path))))"

definition gist_attempt ::
  "env \<Rightarrow> github_archive \<Rightarrow> gist \<Rightarrow> string \<Rightarrow> operation \<Rightarrow> unit action" where
  "gist_attempt env self gist gist_path operation =
     and_then (subprocess_run env (gist_commands gist gist_path operation) (timeout self)) (\<lambda>r.
     case r of
       Inr _ \<Rightarrow>
         logger INFO (''Gist: '' @ gist_id gist @ '' '' @ op_name operation @ '' success!'')
     | Inl TimeoutExpired \<Rightarrow>
         and_then (logger ERROR
                     (''Git operation timed out archiving '' @ gist_id gist @ ''.'')) (\<lambda>_.
         and_then (os_path_exists gist_path) (\<lambda>left_over.
         when_do left_over (shutil_rmtree gist_path)))
     | Inl (CalledProcessError err) \<Rightarrow>
         and_then (logger ERROR
                     (''Failed to '' @ op_name operation @ '' '' @ gist_id gist @ nl @ err)) (\<lambda>_.
         and_then (os_path_exists gist_path) (\<lambda>left_over.
         when_do left_over (shutil_rmtree gist_path))))"

definition attempt :: "env \<Rightarrow> github_archive \<Rightarrow> job \<Rightarrow> unit action" where
  "attempt env self j =
     (case job_target j of
        RepoTarget repo \<Rightarrow> repo_attempt env self repo (job_path j) (job_operation j)
      | GistTarget gist \<Rightarrow> gist_attempt env self gist (job_path j) (job_operation j))"

text \<open>
  Where a thread stands in its body: before the test of line 267, waiting for a permit,
  holding one before the subprocess, before the \<open>release\<close> of the \<open>finally\<close> clause
  (with the exception a handler raised, if any), and finished (with the exception that
  ended it, if any). The two counters record the \<open>acquire\<close> and \<open>release\<close> calls that
  the thread has completed.
\<close>

datatype pc = AtCheck | AtAcquire | AtRun | AtRelease "error option" | Finished "error option"

record thread =
  th_job :: job
  th_pc :: pc
  th_acquired :: nat
  th_released :: nat

text \<open>
  The starting thread: in the loop that starts the threads (with the jobs still to start),
  in the loop of joins (with the number of threads joined so far), or back from the call.
\<close>

datatype main_pc = Starting "job list" | Joining nat | Returned

record pool =
  shared :: world
  pool_threads :: "thread list"
  pool_main :: main_pc

definition initial_pool :: "github_archive \<Rightarrow> job list \<Rightarrow> world \<Rightarrow> pool" where
  "initial_pool self jobs w =
     \<lparr>shared = w\<lparr>thread_limiter := \<lparr>permits = threads self, initial_value = threads self\<rparr>\<rparr>,
      pool_threads = [],
      pool_main = Starting jobs\<rparr>"

text \<open>The report of the exception that ends a thread, as in \<open>run_thread\<close>.\<close>

definition uncaught :: "error option \<Rightarrow> world \<Rightarrow> world" where
  "uncaught pending w =
     (case pending of None \<Rightarrow> w | Some e \<Rightarrow> w\<lparr>trace := trace w @ [ThreadException e]\<rparr>)"

text \<open>
  One step of one thread. Each rule is one atomic action of the source; any thread that
  can move may move next. \<open>join\<close> waits for the thread it names, \<open>acquire\<close> for a permit.
\<close>

inductive step :: "env \<Rightarrow> github_archive \<Rightarrow> pool \<Rightarrow> pool \<Rightarrow> bool"
  for env :: env and self :: github_archive where
  start:
    "pool_main s = Starting (j # js) \<Longrightarrow>
     step env self s
       (s\<lparr>pool_threads := pool_threads s @ [\<lparr>th_job = j, th_pc = AtCheck, th_acquired = 0, th_released = 0\<rparr>],
          pool_main := Starting js\<rparr>)"
| started:
    "pool_main s = Starting [] \<Longrightarrow> step env self s (s\<lparr>pool_main := Joining 0\<rparr>)"
| join:
    "pool_main s = Joining k \<Longrightarrow> k < length (pool_threads s) \<Longrightarrow>
     th_pc (pool_threads s ! k) = Finished e \<Longrightarrow>
     step env self s (s\<lparr>pool_main := Joining (Suc k)\<rparr>)"
| joined:
    "pool_main s = Joining k \<Longrightarrow> \<not> k < length (pool_threads s) \<Longrightarrow>
     step env self s (s\<lparr>pool_main := Returned\<rparr>)"
| skip:
    "i < length (pool_threads s) \<Longrightarrow> t = pool_threads s ! i \<Longrightarrow> th_pc t = AtCheck \<Longrightarrow>
     path_exists (fs (shared s)) (job_path (th_job t)) \<and> job_operation (th_job t) = Clone \<Longrightarrow>
     step env self s (s\<lparr>pool_threads := (pool_threads s)[i := t\<lparr>th_pc := Finished None\<rparr>]\<rparr>)"
| enter:
    "i < length (pool_threads s) \<Longrightarrow> t = pool_threads s ! i \<Longrightarrow> th_pc t = AtCheck \<Longrightarrow>
     \<not> (path_exists (fs (shared s)) (job_path (th_job t)) \<and> job_operation (th_job t) = Clone) \<Longrightarrow>
     step env self s (s\<lparr>pool_threads := (pool_threads s)[i := t\<lparr>th_pc := AtAcquire\<rparr>]\<rparr>)"
| acquired:
    "i < length (pool_threads s) \<Longrightarrow> t = pool_threads s ! i \<Longrightarrow> th_pc t = AtAcquire \<Longrightarrow>
     acquire (shared s) = (Return (), w') \<Longrightarrow>
     step env self s
       (s\<lparr>shared := w',
          pool_threads := (pool_threads s)[i := t\<lparr>th_pc := AtRun, th_acquired := Suc (th_acquired t)\<rparr>]\<rparr>)"
| ran:
    "i < length (pool_threads s) \<Longrightarrow> t = pool_threads s ! i \<Longrightarrow> th_pc t = AtRun \<Longrightarrow>
     attempt env self (th_job t) (shared s) = (r, w') \<Longrightarrow> r \<noteq> Hang \<Longrightarrow>
     step env self s
       (s\<lparr>shared := w',
          pool_threads := (pool_threads s)
            [i := t\<lparr>th_pc := AtRelease (case r of Raise e \<Rightarrow> Some e | _ \<Rightarrow> None)\<rparr>]\<rparr>)"
| released:
    "i < length (pool_threads s) \<Longrightarrow> t = pool_threads s ! i \<Longrightarrow> th_pc t = AtRelease pending \<Longrightarrow>
     release (shared s) = (Return (), w') \<Longrightarrow>
     step env self s
       (s\<lparr>shared := uncaught pending w',
          pool_threads := (pool_threads s)
            [i := t\<lparr>th_pc := Finished pending, th_released := Suc (th_released t)\<rparr>]\<rparr>)"
| release_failed:
    "i < length (pool_threads s) \<Longrightarrow> t = pool_threads s ! i \<Longrightarrow> th_pc t = AtRelease pending \<Longrightarrow>
     release (shared s) = (Raise e, w') \<Longrightarrow>
     step env self s
       (s\<lparr>shared := uncaught (Some e) w',
          pool_threads := (pool_threads s)[i := t\<lparr>th_pc := Finished (Some e)\<rparr>]\<rparr>)"

inductive reachable :: "env \<Rightarrow> github_archive \<Rightarrow> pool \<Rightarrow> pool \<Rightarrow> bool"
  for env :: env and self :: github_archive and s0 :: pool where
  here: "reachable env self s0 s0"
| later: "reachable env self s0 s \<Longrightarrow> step env self s s' \<Longrightarrow> reachable env self s0 s'"

section \<open>Invariants of the interleaved pass\<close>

text \<open>The permits a thread holds: its completed acquisitions that it has not released.\<close>

definition held :: "thread \<Rightarrow> nat" where
  "held t = th_acquired t - th_released t"

definition thread_ok :: "thread \<Rightarrow> bool" where
  "thread_ok t =
     (case th_pc t of
        AtCheck \<Rightarrow> th_acquired t = 0 \<and> th_released t = 0
      | AtAcquire \<Rightarrow> th_acquired t = 0 \<and> th_released t = 0
      | AtRun \<Rightarrow> th_acquired t = 1 \<and> th_released t = 0
      | AtRelease _ \<Rightarrow> th_acquired t = 1 \<and> th_released t = 0
      | Finished _ \<Rightarrow> th_acquired t = th_released t \<and> th_acquired t \<le> 1)"

definition pool_ok :: "int \<Rightarrow> pool \<Rightarrow> bool" where
  "pool_ok n s \<longleftrightarrow>
     initial_value (thread_limiter (shared s)) = n \<and>
     0 \<le> permits (thread_limiter (shared s)) \<and>
     permits (thread_limiter (shared s)) + int (sum_list (map held (pool_threads s))) = n \<and>
     (\<forall>t \<in> set (pool_threads s). thread_ok t)"

definition is_finished :: "thread \<Rightarrow> bool" where
  "is_finished t = (case th_pc t of Finished _ \<Rightarrow> True | _ \<Rightarrow> False)"

definition barrier_ok :: "job list \<Rightarrow> pool \<Rightarrow> bool" where
  "barrier_ok jobs s =
     (case pool_main s of
        Starting js \<Rightarrow> map th_job (pool_threads s) @ js = jobs
      | Joining k \<Rightarrow>
          map th_job (pool_threads s) = jobs \<and> k \<le> length (pool_threads s) \<and>
          (\<forall>i < k. is_finished (pool_threads s ! i))
      | Returned \<Rightarrow>
          map th_job (pool_threads s) = jobs \<and> (\<forall>t \<in> set (pool_threads s). is_finished t))"

text \<open>An action that leaves the semaphore as it found it.\<close>

definition keeps_limiter :: "'a action \<Rightarrow> bool" where
  "keeps_limiter m \<longleftrightarrow> (\<forall>w. thread_limiter (snd (m w)) = thread_limiter w)"

section \<open>Concrete inputs\<close>

text \<open>
  A filesystem with the root only, and one that holds the archive of \<open>bob/r1\<close> and of the
  gist \<open>g1\<close> below \<open>/archive\<close>.
\<close>

definition root_only :: filesystem where
  "root_only = \<lparr>nodes = (\<lambda>q. if q = [] then Some Dir else None), cwd = []\<rparr>"

definition archived :: filesystem where
  "archived =
     \<lparr>nodes = (\<lambda>q. if prefix q [''archive'', ''repos'', ''bob'', ''r1'']
                       \<or> prefix q [''archive'', ''gists'', ''g1''] then Some Dir else None),
      cwd = []\<rparr>"

definition world_of :: "filesystem \<Rightarrow> world" where
  "world_of f = \<lparr>fs = f, trace = [], thread_limiter = \<lparr>permits = 2, initial_value = 2\<rparr>\<rparr>"

definition bob_r1 :: repo where
  "bob_r1 = \<lparr>owner_login = ''Bob'', name = ''r1'', ssh_url = ''git@host:Bob/r1.git''\<rparr>"

definition alice_r1 :: repo where
  "alice_r1 = \<lparr>owner_login = ''alice'', name = ''r1'', ssh_url = ''git@host:alice/r1.git''\<rparr>"

definition orgx_r2 :: repo where
  "orgx_r2 = \<lparr>owner_login = ''orgX'', name = ''r2'', ssh_url = ''git@host:orgX/r2.git''\<rparr>"

definition gist_g1 :: gist where
  "gist_g1 = \<lparr>gist_owner_login = ''bob'', gist_id = ''g1'', html_url = ''https://host/g1''\<rparr>"

text \<open>
  A forge and a shell. The shell leaves the directories \<open>/archive/repos/bob/r1\<close> and
  \<open>/archive/gists/g1\<close> behind; it answers with the given result, whatever the command.
\<close>

definition shell_leaving :: "proc_result \<Rightarrow> string \<Rightarrow> world \<Rightarrow> proc_result \<times> filesystem" where
  "shell_leaving r cmd w =
     (r, (fs w)\<lparr>nodes := makedirs_nodes [''archive'', ''repos'', ''bob'', ''r1'']
                             (makedirs_nodes [''archive'', ''gists'', ''g1''] (nodes (fs w)))\<rparr>)"

definition env_with :: "proc_result \<Rightarrow> env" where
  "env_with r =
     \<lparr>shell = shell_leaving r,
      called_process_error_str = (\<lambda>cmd rc. ''non-zero exit status''),
      self_repos = [alice_r1, orgx_r2],
      user_repos = (\<lambda>n. if n = ''bob'' then Inr [bob_r1] else Inl (UnknownObjectException n)),
      org_repos = (\<lambda>n. Inl (UnknownObjectException n)),
      user_gists = (\<lambda>n. if n = ''bob'' then Inr [gist_g1] else Inl (UnknownObjectException n)),
      setup_logging = (\<lambda>l f. f),
      execution_time = ''0:00:01''\<rparr>"

text \<open>
  The archiver of a user who passes the token of \<open>alice\<close>, a list of users, the clone flag
  and the root \<open>/archive\<close>.
\<close>

definition archiver :: "string \<Rightarrow> github_archive" where
  "archiver us =
     \<lparr>view = False, clone = True, pull = False,
      users = name_list (Some us), orgs = [], gists = [],
      timeout = 30, threads = 2, token = Some ''secret'', location = ''/archive'',
      authenticated_login = Some ''Alice'', authenticated_username = Some ''alice''\<rparr>"

text \<open>
  The thread arguments for cloning \<open>Bob/r1\<close>, and a pool in which that thread holds a permit.
\<close>

definition job_bob :: job where
  "job_bob =
     \<lparr>job_target = RepoTarget bob_r1, job_path = ''/archive/repos/bob/r1'', job_operation = Clone\<rparr>"

definition holding_pool :: pool where
  "holding_pool =
     \<lparr>shared = \<lparr>fs = root_only, trace = [], thread_limiter = \<lparr>permits = 1, initial_value = 2\<rparr>\<rparr>,
      pool_threads = [\<lparr>th_job = job_bob, th_pc = AtRun, th_acquired = 1, th_released = 0\<rparr>],
      pool_main = Starting []\<rparr>"

section \<open>Predicates used in the statements\<close>

text \<open>
  Whether some list of targets is given, whether some operation flag is set, and the tests
  of lines 137 to 144 of \<open>initialize_project\<close> on their own.
\<close>

definition any_target :: "github_archive \<Rightarrow> bool" where
  "any_target self \<longleftrightarrow> users self \<noteq> [] \<or> orgs self \<noteq> [] \<or> gists self \<noteq> []"

definition any_operation :: "github_archive \<Rightarrow> bool" where
  "any_operation self \<longleftrightarrow> view self \<or> clone self \<or> pull self"

definition validation :: "github_archive \<Rightarrow> unit action" where
  "validation self =
     (if any_target self \<and> \<not> any_operation self then
        and_then (logger CRITICAL no_operation_message) (\<lambda>_.
        raise (ValueError no_operation_message))
      else if \<not> any_target self \<and> any_operation self then
        and_then (logger CRITICAL no_list_message) (\<lambda>_.
        raise (ValueError no_list_message))
      else return ())"

text \<open>The archiver of the concrete inputs with no operation flag set.\<close>

definition idle_archiver :: "string \<Rightarrow> github_archive" where
  "idle_archiver us = (archiver us)\<lparr>clone := False\<rparr>"

text \<open>
  The set-up of the directories at the head of \<open>initialize_project\<close> goes through: the
  root is there, or both calls of \<open>os.makedirs\<close> return.
\<close>

definition set_up_returns :: "github_archive \<Rightarrow> world \<Rightarrow> bool" where
  "set_up_returns self w \<longleftrightarrow>
     path_exists (fs w) (location self)
     \<or> (fst (os_makedirs (os_path_join (location self) [''repos'']) w) = Return ()
        \<and> fst (os_makedirs (os_path_join (location self) [''gists''])
                 (snd (os_makedirs (os_path_join (location self) [''repos'']) w))) = Return ())"

text \<open>
  A filesystem in which \<open>/f\<close> is a regular file, and the archiver without an operation
  flag whose root \<open>/f/archive\<close> lies below that file.
\<close>

definition below_a_file :: filesystem where
  "below_a_file =
     \<lparr>nodes = (\<lambda>q. if q = [] then Some Dir else if q = [''f''] then Some File else None),
      cwd = []\<rparr>"

definition misplaced_archiver :: github_archive where
  "misplaced_archiver = (idle_archiver ''bob'')\<lparr>location := ''/f/archive''\<rparr>"

section \<open>Lemmas on the segments of a thread\<close>

lemma archive_repo_segments:
  "archive_repo env self repo p operation =
     and_then (os_path_exists p) (\<lambda>present.
     if present \<and> operation = Clone then return ()
     else try_finally (and_then acquire (\<lambda>_. repo_attempt env self repo p operation)) release)"
  unfolding archive_repo_def repo_attempt_def Let_def by (rule refl)

lemma archive_gist_segments:
  "archive_gist env self g p operation =
     and_then (os_path_exists p) (\<lambda>present.
     if present \<and> operation = Clone then return ()
     else try_finally (and_then acquire (\<lambda>_. gist_attempt env self g p operation)) release)"
  unfolding archive_gist_def gist_attempt_def Let_def by (rule refl)

section \<open>The semaphore is touched by acquire and release only\<close>

lemma sum_held_update:
  assumes "i < length ts"
  shows "sum_list (map held (ts[i := t'])) + held (ts ! i) = sum_list (map held ts) + held t'"
proof -
  have "sum_list ((map held ts)[i := held t']) = sum_list (map held ts) + held t' - (map held ts) ! i"
    using assms by (simp add: sum_list_update)
  moreover have "(map held ts) ! i \<le> sum_list (map held ts)"
    using assms by (simp add: member_le_sum_list)
  ultimately show ?thesis using assms by (simp add: map_update)
qed

lemma thread_ok_update:
  "\<forall>t \<in> set ts. thread_ok t \<Longrightarrow> thread_ok t' \<Longrightarrow> \<forall>t \<in> set (ts[i := t']). thread_ok t"
  using set_update_subset_insert [of ts i t'] by auto

lemma keeps_return: "keeps_limiter (return x)"
  by (simp add: keeps_limiter_def return_def)

lemma keeps_raise: "keeps_limiter (raise e)"
  by (simp add: keeps_limiter_def raise_def)

lemma keeps_emit: "keeps_limiter (emit e)"
  by (simp add: keeps_limiter_def emit_def)

lemma keeps_logger: "keeps_limiter (logger l m)"
  by (simp add: logger_def keeps_emit)

lemma keeps_exists: "keeps_limiter (os_path_exists p)"
  by (simp add: keeps_limiter_def os_path_exists_def)

lemma keeps_rmtree: "keeps_limiter (shutil_rmtree p)"
  by (simp add: keeps_limiter_def shutil_rmtree_def Let_def split: option.split node.split)

lemma keeps_makedirs: "keeps_limiter (os_makedirs p)"
  by (simp add: keeps_limiter_def os_makedirs_def Let_def)

lemma keeps_subprocess: "keeps_limiter (subprocess_run env c t)"
  by (simp add: keeps_limiter_def subprocess_run_def Let_def split: prod.split proc_result.split)

lemma keeps_and_then:
  assumes "keeps_limiter m" and "\<And>x. keeps_limiter (k x)"
  shows "keeps_limiter (and_then m k)"
  unfolding keeps_limiter_def
proof
  fix w
  obtain r w1 where m: "m w = (r, w1)" by (cases "m w")
  have l1: "thread_limiter w1 = thread_limiter w"
    using assms(1) m by (metis keeps_limiter_def snd_conv)
  show "thread_limiter (snd (and_then m k w)) = thread_limiter w"
  proof (cases r)
    case (Return x)
    have "thread_limiter (snd (k x w1)) = thread_limiter w1"
      using assms(2) [of x] by (simp add: keeps_limiter_def)
    then show ?thesis using m Return l1 by (simp add: and_then_def)
  next
    case (Raise e)
    then show ?thesis using m l1 by (simp add: and_then_def)
  next
    case Hang
    then show ?thesis using m l1 by (simp add: and_then_def)
  qed
qed

lemma keeps_when: "keeps_limiter m \<Longrightarrow> keeps_limiter (when_do b m)"
  by (simp add: when_do_def keeps_return)

lemma keeps_cleanup:
  "keeps_limiter (and_then (os_path_exists p) (\<lambda>left_over. when_do left_over (shutil_rmtree p)))"
  by (intro keeps_and_then keeps_exists keeps_when keeps_rmtree)

lemma keeps_repo_attempt: "keeps_limiter (repo_attempt env self r p operation)"
  unfolding repo_attempt_def
  by (intro keeps_and_then keeps_subprocess)
     (auto split: sum.split proc_exception.split intro!: keeps_and_then keeps_logger keeps_cleanup)

lemma keeps_gist_attempt: "keeps_limiter (gist_attempt env self g p operation)"
  unfolding gist_attempt_def
  by (intro keeps_and_then keeps_subprocess)
     (auto split: sum.split proc_exception.split intro!: keeps_and_then keeps_logger keeps_cleanup)

lemma keeps_attempt: "keeps_limiter (attempt env self j)"
  by (simp add: attempt_def keeps_repo_attempt keeps_gist_attempt split: target.split)

lemma attempt_limiter:
  assumes "attempt env self j w = (r, w')"
  shows "thread_limiter w' = thread_limiter w"
proof -
  have "thread_limiter (snd (attempt env self j w)) = thread_limiter w"
    using keeps_attempt [of env self j] by (simp add: keeps_limiter_def)
  then show ?thesis using assms by simp
qed

lemma uncaught_limiter: "thread_limiter (uncaught p w) = thread_limiter w"
  by (simp add: uncaught_def split: option.split)

lemma pool_ok_thread_update:
  assumes ok: "pool_ok n s" and i: "i < length (pool_threads s)"
    and threads': "pool_threads s' = (pool_threads s)[i := t']"
    and t': "thread_ok t'"
    and count: "permits (thread_limiter (shared s')) + int (held t')
                  = permits (thread_limiter (shared s)) + int (held (pool_threads s ! i))"
    and bound: "initial_value (thread_limiter (shared s')) = initial_value (thread_limiter (shared s))"
    and nonneg: "0 \<le> permits (thread_limiter (shared s'))"
  shows "pool_ok n s'"
proof -
  have "\<forall>t \<in> set (pool_threads s). thread_ok t"
    using ok by (simp add: pool_ok_def)
  then have "\<forall>t \<in> set ((pool_threads s)[i := t']). thread_ok t"
    using t' by (rule thread_ok_update)
  then have all: "\<forall>t \<in> set (pool_threads s'). thread_ok t"
    using threads' by simp
  have "sum_list (map held (pool_threads s')) + held (pool_threads s ! i)
          = sum_list (map held (pool_threads s)) + held t'"
    using sum_held_update [OF i, of t'] threads' by simp
  then have "permits (thread_limiter (shared s')) + int (sum_list (map held (pool_threads s'))) = n"
    using ok count by (simp add: pool_ok_def)
  moreover have "initial_value (thread_limiter (shared s')) = n"
    using ok bound by (simp add: pool_ok_def)
  ultimately show ?thesis using all nonneg by (simp add: pool_ok_def)
qed

lemma step_pool_ok:
  assumes "step env self s s'" and "pool_ok n s"
  shows "pool_ok n s'"
  using assms
proof (induction rule: step.induct)
  case (start s j js)
  then show ?case by (simp add: pool_ok_def held_def thread_ok_def)
next
  case (started s)
  then show ?case by (simp add: pool_ok_def)
next
  case (join s k e)
  then show ?case by (simp add: pool_ok_def)
next
  case (joined s k)
  then show ?case by (simp add: pool_ok_def)
next
  case (skip i s t)
  have ok: "thread_ok t" using skip by (simp add: pool_ok_def)
  show ?case
  proof (rule pool_ok_thread_update [OF skip(5) skip(1)])
    show "thread_ok (t\<lparr>th_pc := Finished None\<rparr>)"
      using ok skip(3) by (simp add: thread_ok_def)
  qed (use skip in \<open>simp_all add: held_def pool_ok_def\<close>)
next
  case (enter i s t)
  have ok: "thread_ok t" using enter by (simp add: pool_ok_def)
  show ?case
  proof (rule pool_ok_thread_update [OF enter(5) enter(1)])
    show "thread_ok (t\<lparr>th_pc := AtAcquire\<rparr>)"
      using ok enter(3) by (simp add: thread_ok_def)
  qed (use enter in \<open>simp_all add: held_def pool_ok_def\<close>)
next
  case (acquired i s t w')
  have ok: "thread_ok t" using acquired by (simp add: pool_ok_def)
  have t: "th_acquired t = 0" "th_released t = 0"
    using ok acquired(3) by (simp_all add: thread_ok_def)
  have w': "0 < permits (thread_limiter (shared s))"
    "permits (thread_limiter w') = permits (thread_limiter (shared s)) - 1"
    "initial_value (thread_limiter w') = initial_value (thread_limiter (shared s))"
    using acquired(4) by (auto simp: acquire_def Let_def split: if_splits)
  show ?case
  proof (rule pool_ok_thread_update [OF acquired(5) acquired(1)])
    show "thread_ok (t\<lparr>th_pc := AtRun, th_acquired := Suc (th_acquired t)\<rparr>)"
      using t by (simp add: thread_ok_def)
  qed (use acquired(2) t w' in \<open>simp_all add: held_def\<close>)
next
  case (ran i s t r w')
  have ok: "thread_ok t" using ran by (simp add: pool_ok_def)
  have w': "thread_limiter w' = thread_limiter (shared s)"
    using ran(4) by (rule attempt_limiter)
  show ?case
  proof (rule pool_ok_thread_update [OF ran(6) ran(1)])
    show "thread_ok (t\<lparr>th_pc := AtRelease (case r of Raise e \<Rightarrow> Some e | _ \<Rightarrow> None)\<rparr>)"
      using ok ran(3) by (simp add: thread_ok_def)
  qed (use ran w' in \<open>simp_all add: held_def pool_ok_def\<close>)
next
  case (released i s t pending w')
  have ok: "thread_ok t" using released by (simp add: pool_ok_def)
  have t: "th_acquired t = 1" "th_released t = 0"
    using ok released(3) by (simp_all add: thread_ok_def)
  have w': "permits (thread_limiter w') = permits (thread_limiter (shared s)) + 1"
    "initial_value (thread_limiter w') = initial_value (thread_limiter (shared s))"
    using released(4) by (auto simp: release_def Let_def split: if_splits)
  show ?case
  proof (rule pool_ok_thread_update [OF released(5) released(1)])
    show "thread_ok (t\<lparr>th_pc := Finished pending, th_released := Suc (th_released t)\<rparr>)"
      using t by (simp add: thread_ok_def)
  qed (use released(2,5) t w' in \<open>simp_all add: held_def uncaught_limiter pool_ok_def\<close>)
next
  case (release_failed i s t pending e w')
  have ok: "thread_ok t" using release_failed by (simp add: pool_ok_def)
  have h: "held t = 1"
    using ok release_failed(3) by (simp add: thread_ok_def held_def)
  have "held t \<le> sum_list (map held (pool_threads s))"
    using release_failed(1,2) by (simp add: member_le_sum_list)
  then have "permits (thread_limiter (shared s)) < initial_value (thread_limiter (shared s))"
    using release_failed(5) h by (simp add: pool_ok_def)
  then have False
    using release_failed(4) by (auto simp: release_def Let_def split: if_splits)
  then show ?case ..
qed

lemma reachable_pool_ok:
  assumes "reachable env self s0 s" and "pool_ok n s0"
  shows "pool_ok n s"
  using assms by (induction rule: reachable.induct) (auto intro: step_pool_ok)

lemma initial_pool_ok: "0 \<le> threads self \<Longrightarrow> pool_ok (threads self) (initial_pool self jobs w)"
  by (simp add: pool_ok_def initial_pool_def)

section \<open>The join barrier\<close>

lemma barrier_ok_thread_update:
  assumes ok: "barrier_ok jobs s" and i: "i < length (pool_threads s)"
    and threads': "pool_threads s' = (pool_threads s)[i := t']"
    and main': "pool_main s' = pool_main s"
    and job: "th_job t' = th_job (pool_threads s ! i)"
    and moving: "\<not> is_finished (pool_threads s ! i)"
  shows "barrier_ok jobs s'"
proof -
  have jobs: "map th_job (pool_threads s') = map th_job (pool_threads s)"
    using i threads' job by (simp add: map_update list_update_same_conv)
  show ?thesis
  proof (cases "pool_main s")
    case (Starting js)
    then show ?thesis using ok jobs main' by (simp add: barrier_ok_def)
  next
    case (Joining k)
    have "\<forall>j < k. is_finished (pool_threads s ! j)"
      using ok Joining by (simp add: barrier_ok_def)
    then have "\<forall>j < k. is_finished (pool_threads s' ! j)"
      using moving threads' by (metis nth_list_update_neq)
    then show ?thesis using ok jobs main' Joining threads' by (simp add: barrier_ok_def)
  next
    case Returned
    then have "is_finished (pool_threads s ! i)"
      using ok i by (simp add: barrier_ok_def)
    then show ?thesis using moving by simp
  qed
qed

lemma step_barrier_ok:
  assumes "step env self s s'" and "barrier_ok jobs s"
  shows "barrier_ok jobs s'"
  using assms
proof (induction rule: step.induct)
  case (start s j js)
  then show ?case by (simp add: barrier_ok_def)
next
  case (started s)
  then show ?case by (simp add: barrier_ok_def)
next
  case (join s k e)
  then show ?case by (auto simp: barrier_ok_def is_finished_def less_Suc_eq)
next
  case (joined s k)
  then show ?case by (auto simp: barrier_ok_def in_set_conv_nth)
next
  case (skip i s t)
  show ?case
    by (rule barrier_ok_thread_update [OF skip(5) skip(1), where t' = "t\<lparr>th_pc := Finished None\<rparr>"]) (use skip in \<open>simp_all add: is_finished_def\<close>)
next
  case (enter i s t)
  show ?case
    by (rule barrier_ok_thread_update [OF enter(5) enter(1), where t' = "t\<lparr>th_pc := AtAcquire\<rparr>"]) (use enter in \<open>simp_all add: is_finished_def\<close>)
next
  case (acquired i s t w')
  show ?case
    by (rule barrier_ok_thread_update [OF acquired(5) acquired(1), where t' = "t\<lparr>th_pc := AtRun, th_acquired := Suc (th_acquired t)\<rparr>"])
       (use acquired in \<open>simp_all add: is_finished_def\<close>)
next
  case (ran i s t r w')
  show ?case
    by (rule barrier_ok_thread_update [OF ran(6) ran(1), where t' = "t\<lparr>th_pc := AtRelease (case r of Raise e \<Rightarrow> Some e | _ \<Rightarrow> None)\<rparr>"]) (use ran in \<open>simp_all add: is_finished_def\<close>)
next
  case (released i s t pending w')
  show ?case
    by (rule barrier_ok_thread_update [OF released(5) released(1), where t' = "t\<lparr>th_pc := Finished pending, th_released := Suc (th_released t)\<rparr>"])
       (use released in \<open>simp_all add: is_finished_def\<close>)
next
  case (release_failed i s t pending e w')
  show ?case
    by (rule barrier_ok_thread_update [OF release_failed(5) release_failed(1), where t' = "t\<lparr>th_pc := Finished (Some e)\<rparr>"])
       (use release_failed in \<open>simp_all add: is_finished_def\<close>)
qed

lemma reachable_barrier_ok:
  assumes "reachable env self s0 s" and "barrier_ok jobs s0"
  shows "barrier_ok jobs s"
  using assms by (induction rule: reachable.induct) (auto intro: step_barrier_ok)

lemma initial_barrier_ok: "barrier_ok jobs (initial_pool self jobs w)"
  by (simp add: barrier_ok_def initial_pool_def)

section \<open>The sequential schedule is one of the interleavings\<close>

lemma thread_body_segments:
  "thread_body env self j =
     and_then (os_path_exists (job_path j)) (\<lambda>present.
     if present \<and> job_operation j = Clone then return ()
     else try_finally (and_then acquire (\<lambda>_. attempt env self j)) release)"
  unfolding thread_body_def attempt_def archive_repo_segments archive_gist_segments
  by (cases "job_target j") (simp_all cong: if_cong)

lemma reachable_step: "step env self a b \<Longrightarrow> reachable env self a b"
  by (rule reachable.later [OF reachable.here])

lemma reachable_trans:
  assumes "reachable env self b c" and "reachable env self a b"
  shows "reachable env self a c"
  using assms by (induction rule: reachable.induct) (auto intro: reachable.later)

lemma acquire_cases:
  "(\<exists>w'. acquire w = (Return (), w')) \<or> acquire w = (Hang, w)"
  by (simp add: acquire_def Let_def)

lemma release_cases:
  "(\<exists>w'. release w = (Return (), w')) \<or> (\<exists>e. release w = (Raise e, w))"
  by (simp add: release_def Let_def)

lemma thread_to_end:
  assumes i: "i < length (pool_threads s)"
    and t: "pool_threads s ! i = \<lparr>th_job = j, th_pc = AtCheck, th_acquired = 0, th_released = 0\<rparr>"
    and run: "run_thread (thread_body env self j) (shared s) = (Return (), w')"
  shows "\<exists>t'. is_finished t' \<and> th_job t' = j \<and>
           reachable env self s (s\<lparr>shared := w', pool_threads := (pool_threads s)[i := t']\<rparr>)"
proof (cases "path_exists (fs (shared s)) (job_path j) \<and> job_operation j = Clone")
  case True
  let ?t = "pool_threads s ! i"
  have "thread_body env self j (shared s) = (Return (), shared s)"
    using True by (simp add: thread_body_segments and_then_def os_path_exists_def return_def)
  then have w': "w' = shared s"
    using run by (simp add: run_thread_def)
  have "step env self s (s\<lparr>pool_threads := (pool_threads s)[i := ?t\<lparr>th_pc := Finished None\<rparr>]\<rparr>)"
    using True t by (intro step.skip [OF i refl]) simp_all
  then have "reachable env self s (s\<lparr>shared := w', pool_threads := (pool_threads s)[i := ?t\<lparr>th_pc := Finished None\<rparr>]\<rparr>)"
    using w' by (simp add: reachable_step)
  moreover have "is_finished (?t\<lparr>th_pc := Finished None\<rparr>)" "th_job (?t\<lparr>th_pc := Finished None\<rparr>) = j"
    using t by (simp_all add: is_finished_def)
  ultimately show ?thesis by blast
next
  case False
  let ?t = "pool_threads s ! i"
  have body: "thread_body env self j (shared s)
                = try_finally (and_then acquire (\<lambda>_. attempt env self j)) release (shared s)"
    using False by (auto simp add: thread_body_segments and_then_def os_path_exists_def)
  define s1 where "s1 = s\<lparr>pool_threads := (pool_threads s)[i := ?t\<lparr>th_pc := AtAcquire\<rparr>]\<rparr>"
  have st1: "step env self s s1"
    unfolding s1_def using False t by (intro step.enter [OF i refl]) simp_all
  obtain wa where wa: "acquire (shared s) = (Return (), wa)"
    using acquire_cases [of "shared s"] body run
    by (auto simp: try_finally_def and_then_def run_thread_def)
  define s2 where
    "s2 = s\<lparr>shared := wa, pool_threads := (pool_threads s)[i := ?t\<lparr>th_pc := AtRun, th_acquired := 1\<rparr>]\<rparr>"
  have st2: "step env self s1 s2"
    using step.acquired [of i s1 "?t\<lparr>th_pc := AtAcquire\<rparr>" wa env self] i t wa
    by (simp add: s1_def s2_def)
  obtain r wb where wb: "attempt env self j wa = (r, wb)"
    by (cases "attempt env self j wa")
  have nohang: "r \<noteq> Hang"
    using body run wa wb by (auto simp: try_finally_def and_then_def run_thread_def)
  define pending where "pending = (case r of Raise e \<Rightarrow> Some e | _ \<Rightarrow> None)"
  define s3 where
    "s3 = s\<lparr>shared := wb,
            pool_threads := (pool_threads s)[i := ?t\<lparr>th_pc := AtRelease pending, th_acquired := 1\<rparr>]\<rparr>"
  have st3: "step env self s2 s3"
    using step.ran [of i s2 "?t\<lparr>th_pc := AtRun, th_acquired := 1\<rparr>" env self r wb] i t wb nohang
    by (simp add: s2_def s3_def pending_def)
  have upto3: "reachable env self s s3"
    using st1 st2 st3 by (blast intro: reachable.intros)
  from release_cases [of wb] show ?thesis
  proof (elim disjE exE)
    fix wc
    assume wc: "release wb = (Return (), wc)"
    let ?t' = "?t\<lparr>th_pc := Finished pending, th_acquired := 1, th_released := 1\<rparr>"
    have "step env self s3 (s\<lparr>shared := uncaught pending wc, pool_threads := (pool_threads s)[i := ?t']\<rparr>)"
      using step.released [of i s3 "?t\<lparr>th_pc := AtRelease pending, th_acquired := 1\<rparr>" pending wc env self]
        i t wc
      by (simp add: s3_def)
    moreover have "w' = uncaught pending wc"
      using body run wa wb wc nohang
      by (cases r) (auto simp: try_finally_def and_then_def run_thread_def uncaught_def pending_def)
    ultimately have "reachable env self s (s\<lparr>shared := w', pool_threads := (pool_threads s)[i := ?t']\<rparr>)"
      using upto3 by (auto intro: reachable.later)
    moreover have "is_finished ?t'" "th_job ?t' = j"
      using t by (simp_all add: is_finished_def)
    ultimately show ?thesis by blast
  next
    fix e
    assume e: "release wb = (Raise e, wb)"
    let ?t' = "?t\<lparr>th_pc := Finished (Some e), th_acquired := 1\<rparr>"
    have "step env self s3 (s\<lparr>shared := uncaught (Some e) wb, pool_threads := (pool_threads s)[i := ?t']\<rparr>)"
      using step.release_failed [of i s3 "?t\<lparr>th_pc := AtRelease pending, th_acquired := 1\<rparr>" pending e wb env self]
        i t e
      by (simp add: s3_def)
    moreover have "w' = uncaught (Some e) wb"
      using body run wa wb e nohang
      by (cases r) (auto simp: try_finally_def and_then_def run_thread_def uncaught_def)
    ultimately have "reachable env self s (s\<lparr>shared := w', pool_threads := (pool_threads s)[i := ?t']\<rparr>)"
      using upto3 by (auto intro: reachable.later)
    moreover have "is_finished ?t'" "th_job ?t' = j"
      using t by (simp_all add: is_finished_def)
    ultimately show ?thesis by blast
  qed
qed

lemma run_jobs_reachable:
  assumes "pool_main s = Starting js" and "run_jobs env self js (shared s) = (Return (), w')"
  shows "\<exists>ts. (\<forall>t \<in> set ts. is_finished t) \<and> map th_job ts = js \<and>
           reachable env self s
             (s\<lparr>shared := w', pool_threads := pool_threads s @ ts, pool_main := Starting []\<rparr>)"
  using assms
proof (induction js arbitrary: s)
  case Nil
  then have "s\<lparr>shared := w', pool_threads := pool_threads s @ [], pool_main := Starting []\<rparr> = s"
    by (simp add: return_def)
  then have "reachable env self s
               (s\<lparr>shared := w', pool_threads := pool_threads s @ [], pool_main := Starting []\<rparr>)"
    by (simp add: reachable.here)
  then show ?case
    by (intro exI [of _ "[]"]) simp
next
  case (Cons j js)
  let ?new = "\<lparr>th_job = j, th_pc = AtCheck, th_acquired = 0, th_released = 0\<rparr>"
  define s1 where "s1 = s\<lparr>pool_threads := pool_threads s @ [?new], pool_main := Starting js\<rparr>"
  have st1: "step env self s s1"
    unfolding s1_def using Cons.prems(1) by (rule step.start)
  obtain w1 where w1: "run_thread (thread_body env self j) (shared s) = (Return (), w1)"
    and rest: "run_jobs env self js w1 = (Return (), w')"
    using Cons.prems(2)
    by (auto simp: and_then_def split: prod.splits outcome.splits)
  have "\<exists>t'. is_finished t' \<and> th_job t' = j \<and>
          reachable env self s1
            (s1\<lparr>shared := w1, pool_threads := (pool_threads s1)[length (pool_threads s) := t']\<rparr>)"
    by (rule thread_to_end) (simp_all add: s1_def w1)
  then obtain t' where t': "is_finished t'" "th_job t' = j"
    and r2: "reachable env self s1
               (s1\<lparr>shared := w1, pool_threads := (pool_threads s1)[length (pool_threads s) := t']\<rparr>)"
    by blast
  define s2 where "s2 = s\<lparr>shared := w1, pool_threads := pool_threads s @ [t'], pool_main := Starting js\<rparr>"
  have s2: "s1\<lparr>shared := w1, pool_threads := (pool_threads s1)[length (pool_threads s) := t']\<rparr> = s2"
    by (simp add: s1_def s2_def)
  have "reachable env self s1 s2"
    using r2 s2 by simp
  then have upto2: "reachable env self s s2"
    using reachable_step [OF st1] by (rule reachable_trans)
  have "\<exists>ts. (\<forall>t \<in> set ts. is_finished t) \<and> map th_job ts = js \<and>
          reachable env self s2
            (s2\<lparr>shared := w', pool_threads := pool_threads s2 @ ts, pool_main := Starting []\<rparr>)"
    by (rule Cons.IH) (simp_all add: s2_def rest)
  then obtain ts where ts: "\<forall>t \<in> set ts. is_finished t" "map th_job ts = js"
    and r3: "reachable env self s2
               (s2\<lparr>shared := w', pool_threads := pool_threads s2 @ ts, pool_main := Starting []\<rparr>)"
    by blast
  have "s2\<lparr>shared := w', pool_threads := pool_threads s2 @ ts, pool_main := Starting []\<rparr>
          = s\<lparr>shared := w', pool_threads := pool_threads s @ (t' # ts), pool_main := Starting []\<rparr>"
    by (simp add: s2_def)
  then have "reachable env self s2
               (s\<lparr>shared := w', pool_threads := pool_threads s @ (t' # ts), pool_main := Starting []\<rparr>)"
    using r3 by simp
  then have all: "reachable env self s
               (s\<lparr>shared := w', pool_threads := pool_threads s @ (t' # ts), pool_main := Starting []\<rparr>)"
    using upto2 by (rule reachable_trans)
  have "\<forall>t \<in> set (t' # ts). is_finished t" and "map th_job (t' # ts) = j # js"
    using t' ts by simp_all
  then show ?case
    using all by (intro exI [of _ "t' # ts"] conjI)
qed

lemma join_all_reachable:
  assumes "pool_main s = Joining k" and "k \<le> length (pool_threads s)"
    and "\<forall>t \<in> set (pool_threads s). is_finished t"
  shows "reachable env self s (s\<lparr>pool_main := Returned\<rparr>)"
  using assms
proof (induction "length (pool_threads s) - k" arbitrary: s k)
  case 0
  then have "step env self s (s\<lparr>pool_main := Returned\<rparr>)"
    by (intro step.joined [of s k]) simp_all
  then show ?case by (rule reachable_step)
next
  case (Suc d)
  then have k: "k < length (pool_threads s)" by simp
  then have "is_finished (pool_threads s ! k)"
    using Suc.prems(3) by simp
  then obtain e where "th_pc (pool_threads s ! k) = Finished e"
    by (auto simp: is_finished_def split: pc.splits)
  then have st: "step env self s (s\<lparr>pool_main := Joining (Suc k)\<rparr>)"
    using Suc.prems(1) k by (intro step.join [of s k])
  have "reachable env self (s\<lparr>pool_main := Joining (Suc k)\<rparr>)
          (s\<lparr>pool_main := Joining (Suc k)\<rparr>\<lparr>pool_main := Returned\<rparr>)"
  proof (rule Suc.hyps(1))
    show "d = length (pool_threads (s\<lparr>pool_main := Joining (Suc k)\<rparr>)) - Suc k"
      using Suc.hyps(2) by simp
    show "Suc k \<le> length (pool_threads (s\<lparr>pool_main := Joining (Suc k)\<rparr>))"
      using k by simp
  qed (use Suc.prems(3) in simp_all)
  then have "reachable env self (s\<lparr>pool_main := Joining (Suc k)\<rparr>) (s\<lparr>pool_main := Returned\<rparr>)"
    by simp
  then show ?case
    using reachable_step [OF st] by (rule reachable_trans)
qed

lemma sequential_pass_reachable:
  assumes "and_then (bounded_semaphore (threads self)) (\<lambda>_. run_jobs env self jobs) w = (Return (), w')"
  shows "\<exists>s. reachable env self (initial_pool self jobs w) s \<and> pool_main s = Returned \<and> shared s = w'"
proof -
  let ?s0 = "initial_pool self jobs w"
  have run: "run_jobs env self jobs (shared ?s0) = (Return (), w')"
    using assms by (auto simp: and_then_def bounded_semaphore_def initial_pool_def split: if_splits)
  have "pool_main ?s0 = Starting jobs" by (simp add: initial_pool_def)
  from run_jobs_reachable [OF this run] obtain ts where
    ts: "\<forall>t \<in> set ts. is_finished t"
    and r1: "reachable env self ?s0
               (?s0\<lparr>shared := w', pool_threads := pool_threads ?s0 @ ts, pool_main := Starting []\<rparr>)"
    by blast
  define s1 where "s1 = ?s0\<lparr>shared := w', pool_threads := ts, pool_main := Starting []\<rparr>"
  have r1': "reachable env self ?s0 s1"
    using r1 by (simp add: s1_def initial_pool_def)
  have "step env self s1 (s1\<lparr>pool_main := Joining 0\<rparr>)"
    by (rule step.started) (simp add: s1_def)
  then have r2: "reachable env self ?s0 (s1\<lparr>pool_main := Joining 0\<rparr>)"
    using r1' by (rule reachable.later [rotated])
  have "reachable env self (s1\<lparr>pool_main := Joining 0\<rparr>) (s1\<lparr>pool_main := Joining 0\<rparr>\<lparr>pool_main := Returned\<rparr>)"
    by (rule join_all_reachable [of _ 0]) (simp_all add: s1_def ts)
  then have "reachable env self ?s0 (s1\<lparr>pool_main := Joining 0\<rparr>\<lparr>pool_main := Returned\<rparr>)"
    using r2 by (rule reachable_trans)
  moreover have "pool_main (s1\<lparr>pool_main := Joining 0\<rparr>\<lparr>pool_main := Returned\<rparr>) = Returned"
    "shared (s1\<lparr>pool_main := Joining 0\<rparr>\<lparr>pool_main := Returned\<rparr>) = w'"
    by (simp_all add: s1_def)
  ultimately show ?thesis by blast
qed

section \<open>Facts about the concrete inputs and about single calls\<close>

lemma archiver_is_init:
  "init (\<lambda>t. Inr ''Alice'') False True False (Some us) None None 30 2 (Some ''secret'') ''/archive''
     = Inr (archiver us)"
  by (simp add: init_def archiver_def truthy_def name_list_def str_lower_def lower_char_def)

lemma resolve_bob_r1:
  "resolve \<lparr>nodes = n, cwd = []\<rparr> ''/archive/repos/bob/r1'' = [''archive'', ''repos'', ''bob'', ''r1'']"
  by (simp add: resolve_def resolve_step_def)

lemma job_bob_is_started: "repo_threads (archiver us) [bob_r1] User Clone = [job_bob]"
  by (simp add: job_bob_def bob_r1_def archiver_def os_path_join_def join_step_def
      str_lower_def lower_char_def)

lemma holding_pool_reachable:
  "reachable env (archiver us) (initial_pool (archiver us) [job_bob] (world_of root_only)) holding_pool"
proof -
  let ?self = "archiver us"
  let ?w = "\<lparr>fs = root_only, trace = [], thread_limiter = \<lparr>permits = 2, initial_value = 2\<rparr>\<rparr>"
  let ?t = "\<lparr>th_job = job_bob, th_pc = AtCheck, th_acquired = 0, th_released = 0\<rparr>"
  let ?s0 = "\<lparr>shared = ?w, pool_threads = [], pool_main = Starting [job_bob]\<rparr>"
  let ?s1 = "\<lparr>shared = ?w, pool_threads = [?t], pool_main = Starting []\<rparr>"
  let ?s2 = "\<lparr>shared = ?w, pool_threads = [?t\<lparr>th_pc := AtAcquire\<rparr>], pool_main = Starting []\<rparr>"
  have s0: "initial_pool ?self [job_bob] (world_of root_only) = ?s0"
    by (simp add: initial_pool_def world_of_def archiver_def)
  have absent: "\<not> path_exists root_only ''/archive/repos/bob/r1''"
    by (simp add: path_exists_def root_only_def resolve_bob_r1)
  have "step env ?self ?s0 ?s1"
    using step.start [of ?s0 job_bob "[]" env ?self] by simp
  moreover have "step env ?self ?s1 ?s2"
    using step.enter [of 0 ?s1 ?t env ?self] absent by (simp add: job_bob_def)
  moreover have "step env ?self ?s2 holding_pool"
    using step.acquired [of 0 ?s2 "?t\<lparr>th_pc := AtAcquire\<rparr>" _ env ?self]
    by (simp add: acquire_def holding_pool_def)
  ultimately show ?thesis
    unfolding s0 by (blast intro: reachable.intros)
qed

lemma cleanup_removes:
  assumes "and_then (os_path_exists p) (\<lambda>left_over. when_do left_over (shutil_rmtree p)) w
             = (Return (), w')"
  shows "\<not> path_exists (fs w') p"
proof (cases "path_exists (fs w) p")
  case False
  then have "w' = w"
    using assms by (simp add: and_then_def os_path_exists_def when_do_def return_def)
  then show ?thesis using False by simp
next
  case True
  then have rm: "shutil_rmtree p w = (Return (), w')"
    using assms by (simp add: and_then_def os_path_exists_def when_do_def)
  then have "fs w' = (fs w)\<lparr>nodes := rmtree_nodes (resolve (fs w) p) (nodes (fs w))\<rparr>"
    by (auto simp: shutil_rmtree_def Let_def split: option.splits node.splits)
  then show ?thesis
    by (simp add: path_exists_def resolve_def rmtree_nodes_def)
qed

lemma logged_cleanup_removes:
  assumes "and_then (logger l msg) (\<lambda>_.
             and_then (os_path_exists p) (\<lambda>left_over. when_do left_over (shutil_rmtree p))) w
             = (Return (), w')"
  shows "\<not> path_exists (fs w') p"
proof -
  have "and_then (os_path_exists p) (\<lambda>left_over. when_do left_over (shutil_rmtree p))
          (w\<lparr>trace := trace w @ [Log l msg]\<rparr>) = (Return (), w')"
    using assms by (simp add: and_then_def logger_def emit_def)
  then show ?thesis by (rule cleanup_removes)
qed

lemma release_fs: "release w = (r, w') \<Longrightarrow> fs w' = fs w"
  by (auto simp: release_def Let_def split: if_splits)

lemma try_finally_Return:
  assumes "try_finally body fin w = (Return x, w')"
  obtains w1 where "body w = (Return x, w1)" and "fin w1 = (Return (), w')"
  using assms by (auto simp: try_finally_def split: prod.splits outcome.splits)

lemma and_then_Return:
  assumes "and_then m k w = (Return y, w')"
  obtains x w1 where "m w = (Return x, w1)" and "k x w1 = (Return y, w')"
  using assms by (auto simp: and_then_def split: prod.splits outcome.splits)

lemma resolve_g1:
  "resolve \<lparr>nodes = n, cwd = []\<rparr> ''/archive/gists/g1'' = [''archive'', ''gists'', ''g1'']"
  by (simp add: resolve_def resolve_step_def)

lemma returned_pair: "fst x = Return () \<Longrightarrow> x = (Return (), snd x)"
  by (cases x) simp

lemmas run_defs =
  archive_repo_def archive_gist_def repo_commands_def gist_commands_def and_then_def
  os_path_exists_def path_exists_def when_do_def shutil_rmtree_def try_finally_def acquire_def
  release_def subprocess_run_def logger_def emit_def return_def op_name_def
  rmtree_nodes_def makedirs_nodes_def

lemma timed_out_clone:
  "fst (archive_repo (env_with TimedOut) (archiver ''bob'') bob_r1 ''/archive/repos/bob/r1'' Clone
          (world_of root_only)) = Return ()"
  "\<not> path_exists (fs (snd (archive_repo (env_with TimedOut) (archiver ''bob'') bob_r1
         ''/archive/repos/bob/r1'' Clone (world_of root_only)))) ''/archive/repos/bob/r1''"
  "fst (subprocess_run (env_with TimedOut) (repo_commands bob_r1 ''/archive/repos/bob/r1'' Clone)
          (timeout (archiver ''bob'')) (snd (acquire (world_of root_only)))) = Return (Inl TimeoutExpired)"
  by (simp_all add: run_defs env_with_def shell_leaving_def archiver_def world_of_def root_only_def
      resolve_bob_r1 bob_r1_def Let_def)

lemma failed_pull:
  "fst (archive_gist (env_with (Exited 1)) (archiver ''bob'') gist_g1 ''/archive/gists/g1'' Pull
          (world_of archived)) = Return ()"
  "\<not> path_exists (fs (snd (archive_gist (env_with (Exited 1)) (archiver ''bob'') gist_g1
         ''/archive/gists/g1'' Pull (world_of archived)))) ''/archive/gists/g1''"
  "fst (subprocess_run (env_with (Exited 1)) (gist_commands gist_g1 ''/archive/gists/g1'' Pull)
          (timeout (archiver ''bob'')) (snd (acquire (world_of archived))))
     = Return (Inl (CalledProcessError ''non-zero exit status''))"
  "path_exists (fs (world_of archived)) ''/archive/gists/g1''"
  by (simp_all add: run_defs env_with_def shell_leaving_def archiver_def world_of_def archived_def
      resolve_g1 gist_g1_def Let_def)

lemma clone_pass_returns:
  "fst (iterate_repos_to_archive (env_with (Exited 0)) (archiver ''bob'') [bob_r1] User Clone
          (world_of root_only)) = Return ()"
  by (simp add: iterate_repos_to_archive_def bounded_semaphore_def job_bob_is_started run_thread_def
      thread_body_def job_bob_def run_defs env_with_def shell_leaving_def archiver_def world_of_def
      root_only_def resolve_bob_r1 bob_r1_def Let_def)

lemma str_split_nonempty: "str_split sep s \<noteq> []"
  by (induction s) (auto split: list.splits)

lemma str_split_append:
  "str_split sep (a @ sep # b) = str_split sep a @ str_split sep b"
proof (induction a)
  case Nil
  then show ?case by simp
next
  case (Cons c a)
  obtain p ps where "str_split sep a = p # ps"
    using str_split_nonempty [of sep a] by (cases "str_split sep a") auto
  then show ?case using Cons by simp
qed

lemma str_split_plain: "sep \<notin> set s \<Longrightarrow> str_split sep s = [s]"
  by (induction s) auto

lemma resolve_child:
  assumes "CHR ''/'' \<notin> set x" and "x \<noteq> []" and "x \<noteq> ''.''" and "x \<noteq> ''..''"
  shows "resolve f (os_path_join loc [x]) = resolve f loc @ [x]"
proof -
  have hdx: "hd x \<noteq> CHR ''/''"
    using assms(1,2) by (cases x) auto
  have step: "resolve_step acc x = acc @ [x]" for acc
    using assms by (simp add: resolve_step_def)
  have empty: "resolve_step acc [] = acc" for acc
    by (simp add: resolve_step_def)
  show ?thesis
  proof (cases "loc = []")
    case True
    then show ?thesis
      using assms hdx by (simp add: os_path_join_def join_step_def resolve_def str_split_plain step empty)
  next
    case False
    show ?thesis
    proof (cases "last loc = CHR ''/''")
      case True
      then obtain l where l: "loc = l @ ''/''"
        using False by (metis append_butlast_last_id)
      have join: "os_path_join loc [x] = l @ CHR ''/'' # x"
        using False True hdx assms(2) l by (simp add: os_path_join_def join_step_def)
      have base: "(l @ CHR ''/'' # x \<noteq> [] \<and> hd (l @ CHR ''/'' # x) = CHR ''/'')
                  = (loc \<noteq> [] \<and> hd loc = CHR ''/'')"
        using l by (cases l) auto
      have "str_split CHR ''/'' loc = str_split CHR ''/'' l @ [[]]"
        using l str_split_append [of "CHR ''/''" l "[]"] by simp
      moreover have "str_split CHR ''/'' (l @ CHR ''/'' # x) = str_split CHR ''/'' l @ [x]"
        using str_split_append [of "CHR ''/''" l x] assms(1) by (simp add: str_split_plain)
      ultimately show ?thesis
        unfolding join resolve_def base by (simp add: step empty)
    next
      case notslash: False
      have join: "os_path_join loc [x] = loc @ CHR ''/'' # x"
        using False notslash hdx assms(2) by (simp add: os_path_join_def join_step_def)
      have base: "(loc @ CHR ''/'' # x \<noteq> [] \<and> hd (loc @ CHR ''/'' # x) = CHR ''/'')
                  = (loc \<noteq> [] \<and> hd loc = CHR ''/'')"
        using False by (cases loc) auto
      have "str_split CHR ''/'' (loc @ CHR ''/'' # x) = str_split CHR ''/'' loc @ [x]"
        using str_split_append [of "CHR ''/''" loc x] assms(1) by (simp add: str_split_plain)
      then show ?thesis
        unfolding join resolve_def base by (simp add: step)
    qed
  qed
qed

lemma resolve_repos: "resolve f (os_path_join loc [''repos'']) = resolve f loc @ [''repos'']"
  by (rule resolve_child) simp_all

lemma resolve_gists: "resolve f (os_path_join loc [''gists'']) = resolve f loc @ [''gists'']"
  by (rule resolve_child) simp_all

lemma resolve_cwd: "cwd f' = cwd f \<Longrightarrow> resolve f' p = resolve f p"
  by (simp add: resolve_def)

lemma makedirs_Return:
  assumes "os_makedirs p w = (Return (), w')"
  shows "trace w' = trace w" and "thread_limiter w' = thread_limiter w"
    and "cwd (fs w') = cwd (fs w)"
    and "nodes (fs w') = makedirs_nodes (resolve (fs w) p) (nodes (fs w))"
    and "\<forall>r. prefix r (resolve (fs w) p) \<longrightarrow> nodes (fs w) r \<noteq> Some File"
  using assms by (auto simp: os_makedirs_def Let_def split: if_splits)

lemma makedirs_nodes_prefix:
  assumes "\<forall>r. prefix r q \<longrightarrow> n r \<noteq> Some File" and "prefix r q"
  shows "makedirs_nodes q n r = Some Dir"
proof (cases "n r")
  case None
  then show ?thesis using assms(2) by (simp add: makedirs_nodes_def)
next
  case (Some k)
  then have "k = Dir" using assms by (cases k) auto
  then show ?thesis using Some by (simp add: makedirs_nodes_def)
qed

lemma makedirs_nodes_keeps: "n r = Some k \<Longrightarrow> makedirs_nodes q n r = Some k"
  by (simp add: makedirs_nodes_def)

lemma initialize_project_parts:
  "initialize_project self =
     and_then (os_path_exists (location self)) (\<lambda>present.
     and_then (when_do (\<not> present)
                 (and_then (os_makedirs (os_path_join (location self) [''repos''])) (\<lambda>_.
                  os_makedirs (os_path_join (location self) [''gists''])))) (\<lambda>_.
     validation self))"
  unfolding initialize_project_def validation_def any_target_def any_operation_def by (rule refl)

lemma validation_outcome:
  "fst (validation self w) =
     (if any_target self \<and> \<not> any_operation self then Raise (ValueError no_operation_message)
      else if \<not> any_target self \<and> any_operation self then Raise (ValueError no_list_message)
      else Return ())"
  and validation_fs: "fs (snd (validation self w)) = fs w"
  by (simp_all add: validation_def and_then_def logger_def emit_def raise_def return_def)

lemma messages_differ: "no_operation_message \<noteq> no_list_message"
  by (simp add: no_operation_message_def no_list_message_def)

lemma makedirs_outcome:
  "(\<exists>w'. os_makedirs p w = (Return (), w'))
   \<or> (\<exists>e. os_makedirs p w = (Raise e, w) \<and> (\<forall>m. e \<noteq> ValueError m))"
  by (simp add: os_makedirs_def Let_def)

lemma initialize_project_present:
  assumes "path_exists (fs w) (location self)"
  shows "initialize_project self w = validation self w"
  using assms
  by (simp add: initialize_project_parts and_then_def os_path_exists_def when_do_def return_def)

lemma initialize_project_absent:
  assumes absent: "\<not> path_exists (fs w) (location self)"
    and quiet: "\<forall>e. fst (initialize_project self w) = Raise e \<longrightarrow> (\<exists>m. e = ValueError m)"
  obtains w1 w2 where
    "os_makedirs (os_path_join (location self) [''repos'']) w = (Return (), w1)"
    "os_makedirs (os_path_join (location self) [''gists'']) w1 = (Return (), w2)"
    "initialize_project self w = validation self w2"
proof -
  let ?repos = "os_path_join (location self) [''repos'']"
  let ?gists = "os_path_join (location self) [''gists'']"
  have first: "\<exists>w1. os_makedirs ?repos w = (Return (), w1)"
  proof (rule ccontr)
    assume "\<not> ?thesis"
    then obtain e where "os_makedirs ?repos w = (Raise e, w)" and "\<forall>m. e \<noteq> ValueError m"
      using makedirs_outcome [of ?repos w] by blast
    then have "fst (initialize_project self w) = Raise e \<and> (\<forall>m. e \<noteq> ValueError m)"
      using absent
      by (simp add: initialize_project_parts and_then_def os_path_exists_def when_do_def)
    then show False using quiet by blast
  qed
  then obtain w1 where w1: "os_makedirs ?repos w = (Return (), w1)" by blast
  have "\<exists>w2. os_makedirs ?gists w1 = (Return (), w2)"
  proof (rule ccontr)
    assume "\<not> ?thesis"
    then obtain e where "os_makedirs ?gists w1 = (Raise e, w1)" and "\<forall>m. e \<noteq> ValueError m"
      using makedirs_outcome [of ?gists w1] by blast
    then have "fst (initialize_project self w) = Raise e \<and> (\<forall>m. e \<noteq> ValueError m)"
      using absent w1
      by (simp add: initialize_project_parts and_then_def os_path_exists_def when_do_def)
    then show False using quiet by blast
  qed
  then obtain w2 where w2: "os_makedirs ?gists w1 = (Return (), w2)" by blast
  have "initialize_project self w = validation self w2"
    using absent w1 w2
    by (simp add: initialize_project_parts and_then_def os_path_exists_def when_do_def)
  then show ?thesis using w1 w2 that by blast
qed

lemma initialize_project_reaches_validation:
  assumes "\<forall>e. fst (initialize_project self w) = Raise e \<longrightarrow> (\<exists>m. e = ValueError m)"
  shows "\<exists>w2. initialize_project self w = validation self w2"
proof (cases "path_exists (fs w) (location self)")
  case True
  then show ?thesis using initialize_project_present by blast
next
  case False
  then show ?thesis using assms by (rule initialize_project_absent) blast
qed

lemma bootstrap_creates:
  assumes absent: "\<not> path_exists (fs w) (location self)"
    and quiet: "\<forall>e. fst (initialize_project self w) = Raise e \<longrightarrow> (\<exists>m. e = ValueError m)"
  shows "nodes (fs (snd (initialize_project self w))) (resolve (fs w) (location self)) = Some Dir"
    and "nodes (fs (snd (initialize_project self w))) (resolve (fs w) (location self) @ [''repos''])
           = Some Dir"
    and "nodes (fs (snd (initialize_project self w))) (resolve (fs w) (location self) @ [''gists''])
           = Some Dir"
    and "cwd (fs (snd (initialize_project self w))) = cwd (fs w)"
proof -
  let ?root = "resolve (fs w) (location self)"
  from absent quiet obtain w1 w2 where
    w1: "os_makedirs (os_path_join (location self) [''repos'']) w = (Return (), w1)"
    and w2: "os_makedirs (os_path_join (location self) [''gists'']) w1 = (Return (), w2)"
    and v: "initialize_project self w = validation self w2"
    by (rule initialize_project_absent)
  note m1 = makedirs_Return [OF w1] and m2 = makedirs_Return [OF w2]
  have r1: "resolve (fs w) (os_path_join (location self) [''repos'']) = ?root @ [''repos'']"
    by (rule resolve_repos)
  have r2: "resolve (fs w1) (os_path_join (location self) [''gists'']) = ?root @ [''gists'']"
    using resolve_cwd [OF m1(3), of "os_path_join (location self) [''gists'']"]
    by (simp add: resolve_gists)
  have n1: "nodes (fs w1) (?root @ [''repos'']) = Some Dir"
    using m1(4,5) unfolding r1 by (simp add: makedirs_nodes_prefix)
  have n2: "nodes (fs w2) r = Some Dir" if "prefix r (?root @ [''gists''])" for r
    using m2(4,5) that unfolding r2 by (simp add: makedirs_nodes_prefix)
  have fs: "fs (snd (initialize_project self w)) = fs w2"
    by (simp add: v validation_fs)
  show "nodes (fs (snd (initialize_project self w))) ?root = Some Dir"
    unfolding fs by (rule n2) simp
  show "nodes (fs (snd (initialize_project self w))) (?root @ [''gists'']) = Some Dir"
    unfolding fs by (rule n2) simp
  show "nodes (fs (snd (initialize_project self w))) (?root @ [''repos'']) = Some Dir"
    unfolding fs using n1 m2(4) by (simp add: makedirs_nodes_keeps)
  show "cwd (fs (snd (initialize_project self w))) = cwd (fs w)"
    unfolding fs using m1(3) m2(3) by simp
qed

lemma os_path_join_nonempty: "x \<noteq> [] \<Longrightarrow> os_path_join loc [x] \<noteq> []"
  by (simp add: os_path_join_def join_step_def)

lemma idle_archiver_facts:
  "any_target (idle_archiver ''bob'')" "\<not> any_operation (idle_archiver ''bob'')"
  "location (idle_archiver ''bob'') = ''/archive''"
  by (simp_all add: idle_archiver_def archiver_def any_target_def any_operation_def name_list_def
      str_split_nonempty)

lemma resolve_archive:
  "resolve \<lparr>nodes = n, cwd = []\<rparr> ''/archive'' = [''archive'']"
  "resolve \<lparr>nodes = n, cwd = []\<rparr> ''/archive/repos'' = [''archive'', ''repos'']"
  "resolve \<lparr>nodes = n, cwd = []\<rparr> ''/archive/gists'' = [''archive'', ''gists'']"
  by (simp_all add: resolve_def resolve_step_def)

lemma join_archive:
  "os_path_join ''/archive'' [''repos''] = ''/archive/repos''"
  "os_path_join ''/archive'' [''gists''] = ''/archive/gists''"
  by (simp_all add: os_path_join_def join_step_def)

lemma idle_on_archived:
  "fst (initialize_project (idle_archiver ''bob'') (world_of archived))
     = Raise (ValueError no_operation_message)"
  "path_exists (fs (world_of archived)) (location (idle_archiver ''bob''))"
  by (simp_all add: initialize_project_parts validation_def idle_archiver_facts and_then_def
      os_path_exists_def path_exists_def when_do_def return_def raise_def logger_def emit_def
      world_of_def archived_def resolve_archive)

lemma idle_on_root_only:
  "fst (initialize_project (idle_archiver ''bob'') (world_of root_only))
     = Raise (ValueError no_operation_message)"
  "\<not> path_exists (fs (world_of root_only)) (location (idle_archiver ''bob''))"
  "\<not> path_exists (fs (world_of root_only)) ''/archive/repos''"
  "\<not> path_exists (fs (world_of root_only)) ''/archive/gists''"
  "path_exists (fs (snd (initialize_project (idle_archiver ''bob'') (world_of root_only))))
     ''/archive/repos''"
  "path_exists (fs (snd (initialize_project (idle_archiver ''bob'') (world_of root_only))))
     ''/archive/gists''"
  by (simp_all add: initialize_project_parts validation_def idle_archiver_facts and_then_def
      os_path_exists_def path_exists_def when_do_def return_def raise_def logger_def emit_def
      os_makedirs_def makedirs_nodes_def Let_def world_of_def root_only_def resolve_archive
      join_archive)

lemma repo_threads_paths:
  "\<forall>j \<in> set (repo_threads self repos context operation).
     \<exists>r \<in> set repos. job_target j = RepoTarget r \<and> job_operation j = operation \<and>
       job_path j = os_path_join (location self) [''repos'', str_lower (owner_login r), name r]"
  by (induction repos) (auto simp: Let_def)

lemma gist_threads_paths:
  "\<forall>j \<in> set (gist_threads self gs operation).
     \<exists>g \<in> set gs. job_target j = GistTarget g \<and> job_operation j = operation \<and>
       job_path j = os_path_join (location self) [''gists'', gist_id g]"
  by (induction gs) auto

lemma repo_threads_personal:
  "truthy (token self) \<Longrightarrow>
   map job_target (repo_threads self repos Personal operation)
     = map RepoTarget (filter (\<lambda>r. Some (str_lower (owner_login r)) = authenticated_username self) repos)"
  by (induction repos) (auto simp: Let_def)

lemma repo_threads_other:
  "context \<noteq> Personal \<Longrightarrow>
   map job_target (repo_threads self repos context operation) = map RepoTarget repos"
  by (induction repos) (auto simp: Let_def)

lemma lower_char_idem: "lower_char (lower_char c) = lower_char c"
  by (simp add: lower_char_def)

lemma lower_char_comma: "lower_char c = CHR '','' \<longleftrightarrow> c = CHR '',''"
  by (simp add: lower_char_def)

lemma str_lower_idem: "str_lower (str_lower s) = str_lower s"
  by (simp add: str_lower_def lower_char_idem)

lemma str_split_lower:
  "str_split CHR '','' (str_lower s) = map str_lower (str_split CHR '','' s)"
proof (induction s)
  case Nil
  then show ?case by (simp add: str_lower_def)
next
  case (Cons c s)
  obtain p ps where "str_split CHR '','' s = p # ps"
    using str_split_nonempty [of "CHR '',''" s] by (cases "str_split CHR '','' s") auto
  then show ?case
    using Cons lower_char_comma [of c] by (auto simp: str_lower_def)
qed

lemma name_list_lower: "n \<in> set (name_list s) \<Longrightarrow> str_lower n = n"
  by (auto simp: name_list_def str_split_lower str_lower_idem split: option.splits if_splits)

lemma fresh_start:
  "fst (initialize_project (archiver ''bob'') (world_of root_only)) = Return ()"
  "\<not> path_exists (fs (world_of root_only)) (location (archiver ''bob''))"
  "location (archiver ''bob'') = ''/archive''"
  "cwd (fs (snd (initialize_project (archiver ''bob'') (world_of root_only)))) = []"
  by (simp_all add: initialize_project_def archiver_def name_list_def str_split_nonempty and_then_def
      os_path_exists_def path_exists_def when_do_def return_def raise_def logger_def emit_def
      os_makedirs_def makedirs_nodes_def Let_def world_of_def root_only_def resolve_archive
      join_archive)

lemma resolve_archive_any:
  "cwd f = [] \<Longrightarrow> resolve f ''/archive'' = [''archive'']"
  "cwd f = [] \<Longrightarrow> resolve f ''/archive/repos'' = [''archive'', ''repos'']"
  "cwd f = [] \<Longrightarrow> resolve f ''/archive/gists'' = [''archive'', ''gists'']"
  by (simp_all add: resolve_def resolve_step_def)

lemmas whole_run_defs =
  run_def initialize_project_def get_personal_repos_def get_all_user_repos_def
  get_all_org_repos_def get_all_gists_def iterate_repos_to_archive_def
  iterate_gists_to_archive_def bounded_semaphore_def run_thread_def thread_body_def
  list_remove_def bound_method_truth_def truthy_def raise_def os_makedirs_def nl_def

lemma run_bob_under_alice:
  "fst (run (env_with (Exited 0)) (archiver ''bob'') (world_of root_only))
     = Raise (ValueError ''list.remove(x): x not in list'')"
  "trace (snd (run (env_with (Exited 0)) (archiver ''bob'') (world_of root_only)))
     = [SetupLogging ''/archive'',
        Log INFO (''# GitHub Archive started...'' @ nl),
        Log INFO (''# Making API call to GitHub for personal repos...'' @ nl),
        Api GetSelfRepos,
        Log DEBUG ''Personal repos retrieved!'',
        Log INFO (''# Cloning missing personal repos...'' @ nl),
        Subprocess ''git clone git@host:alice/r1.git /archive/repos/alice/r1'' 30,
        Log INFO ''Repo: r1 clone success!'']"
  by (simp_all add: whole_run_defs run_defs env_with_def shell_leaving_def archiver_def
      world_of_def root_only_def name_list_def str_lower_def lower_char_def str_strip_def is_space_def
      alice_r1_def orgx_r2_def os_path_join_def join_step_def resolve_def resolve_step_def Let_def)

lemma list_remove_absent:
  "(\<forall>u. x = Some u \<longrightarrow> u \<notin> set xs) \<Longrightarrow>
   list_remove x xs w = (Raise (ValueError ''list.remove(x): x not in list''), w)"
  by (cases x) (simp_all add: list_remove_def raise_def)

lemma and_then_never:
  assumes "\<And>x w1. fst (k x w1) \<noteq> Return y"
  shows "fst (and_then m k w) \<noteq> Return y"
  using assms by (auto simp: and_then_def split: prod.splits outcome.splits)

lemma and_then_never_first:
  assumes "\<And>x. fst (m w) \<noteq> Return x"
  shows "fst (and_then m k w) \<noteq> Return y"
proof (cases "m w")
  case (Pair r w1)
  show ?thesis
  proof (cases r)
    case (Return x)
    then show ?thesis using assms [of x] Pair by simp
  qed (use Pair in \<open>simp_all add: and_then_def\<close>)
qed

lemma run_stops_at_remove:
  assumes "truthy (token self)" and "users self \<noteq> []"
    and "\<forall>u. authenticated_username self = Some u \<longrightarrow> u \<notin> set (users self)"
  shows "fst (run env self w) \<noteq> Return x"
  unfolding run_def
  apply (rule and_then_never)
  apply (rule and_then_never)
  apply (rule and_then_never)
  apply (rule and_then_never_first)
  apply (simp add: assms(1,2) bound_method_truth_def)
  apply (rule and_then_never)
  apply (rule and_then_never)
  apply (rule and_then_never)
  apply (rule and_then_never)
  apply (rule and_then_never)
  apply (rule and_then_never_first)
  apply (simp add: list_remove_absent [OF assms(3)])
  done

lemma set_up_reaches_validation:
  assumes "set_up_returns self w"
  shows "\<exists>w2. initialize_project self w = validation self w2"
proof (cases "path_exists (fs w) (location self)")
  case True
  then show ?thesis using initialize_project_present by blast
next
  case False
  let ?repos = "os_path_join (location self) [''repos'']"
  let ?gists = "os_path_join (location self) [''gists'']"
  have "fst (os_makedirs ?repos w) = Return ()"
    using assms False by (simp add: set_up_returns_def)
  then obtain w1 where w1: "os_makedirs ?repos w = (Return (), w1)"
    by (cases "os_makedirs ?repos w") auto
  have "fst (os_makedirs ?gists w1) = Return ()"
    using assms False w1 by (simp add: set_up_returns_def)
  then obtain w2 where w2: "os_makedirs ?gists w1 = (Return (), w2)"
    by (cases "os_makedirs ?gists w1") auto
  have "initialize_project self w = validation self w2"
    using False w1 w2
    by (simp add: initialize_project_parts and_then_def os_path_exists_def when_do_def)
  then show ?thesis by blast
qed

lemma set_up_on_concrete_inputs:
  "set_up_returns (idle_archiver ''bob'') (world_of root_only)"
  "set_up_returns (archiver ''bob'') (world_of archived)"
  "any_target (archiver ''bob'')" "any_operation (archiver ''bob'')"
  by (simp_all add: set_up_returns_def idle_archiver_facts archiver_def any_target_def
      any_operation_def name_list_def str_split_nonempty path_exists_def os_makedirs_def
      makedirs_nodes_def Let_def world_of_def root_only_def archived_def resolve_archive
      join_archive)

lemma misplaced_archiver_facts:
  "any_target misplaced_archiver" "\<not> any_operation misplaced_archiver"
  "\<not> set_up_returns misplaced_archiver (world_of below_a_file)"
  "fst (initialize_project misplaced_archiver (world_of below_a_file))
     = Raise (NotADirectoryError ''/f/archive/repos'')"
  by (simp_all add: misplaced_archiver_def idle_archiver_def archiver_def any_target_def
      any_operation_def name_list_def str_split_nonempty set_up_returns_def
      initialize_project_def and_then_def os_path_exists_def when_do_def path_exists_def
      os_makedirs_def Let_def world_of_def below_a_file_def resolve_def resolve_step_def
      os_path_join_def join_step_def)

section \<open>Claims\<close>

text \<open>
  C1, at an input where the code departs from the claim. The token is the one of
  \<open>Alice\<close>, the users list is \<open>bob\<close>, the clone flag is set. The method
  \<open>authenticated_user_in_users\<close> would answer that the login is not in the list, yet the
  personal pass runs (the forge is asked for the repositories of the token's user, and
  \<open>alice/r1\<close> is cloned), and the run then ends with the error that \<open>list.remove\<close>
  raises, before the pass over the users.
\<close>

theorem personal_pass_runs_without_membership:
  "authenticated_user_in_users (archiver ''bob'') = Inr False
   \<and> fst (run (env_with (Exited 0)) (archiver ''bob'') (world_of root_only))
       = Raise (ValueError ''list.remove(x): x not in list'')
   \<and> trace (snd (run (env_with (Exited 0)) (archiver ''bob'') (world_of root_only)))
       = [SetupLogging ''/archive'',
          Log INFO (''# GitHub Archive started...'' @ nl),
          Log INFO (''# Making API call to GitHub for personal repos...'' @ nl),
          Api GetSelfRepos,
          Log DEBUG ''Personal repos retrieved!'',
          Log INFO (''# Cloning missing personal repos...'' @ nl),
          Subprocess ''git clone git@host:alice/r1.git /archive/repos/alice/r1'' 30,
          Log INFO ''Repo: r1 clone success!'']"
proof -
  have "authenticated_user_in_users (archiver ''bob'') = Inr False"
    by (simp add: authenticated_user_in_users_def archiver_def name_list_def str_lower_def
        lower_char_def)
  then show ?thesis
    using run_bob_under_alice by (simp only: simp_thms)
qed

text \<open>
  C2. Take a call of \<open>archive_repo\<close> or \<open>archive_gist\<close>, for a clone or a pull, that
  gets as far as the git command (it is not the clone of a path that exists already). If
  \<open>subprocess.run\<close> then raises one of its two exceptions, the timeout or the non-zero
  exit, and the call returns, the local path does not exist in the filesystem it leaves.
\<close>

theorem failed_archive_leaves_no_path:
  assumes "\<not> (path_exists (fs w) p \<and> operation = Clone)"
  shows "(archive_repo env self repo p operation w = (Return (), w')
          \<and> (\<exists>x. fst (subprocess_run env (repo_commands repo p operation) (timeout self)
                         (snd (acquire w))) = Return (Inl x))
          \<longrightarrow> \<not> path_exists (fs w') p)
       \<and> (archive_gist env self g p operation w = (Return (), w')
          \<and> (\<exists>x. fst (subprocess_run env (gist_commands g p operation) (timeout self)
                         (snd (acquire w))) = Return (Inl x))
          \<longrightarrow> \<not> path_exists (fs w') p)"
proof (intro conjI impI; elim conjE exE)
  fix x
  assume ret: "archive_repo env self repo p operation w = (Return (), w')"
    and failed: "fst (subprocess_run env (repo_commands repo p operation) (timeout self)
                   (snd (acquire w))) = Return (Inl x)"
  have "try_finally (and_then acquire (\<lambda>_. repo_attempt env self repo p operation)) release w
          = (Return (), w')"
    using ret assms by (auto simp: archive_repo_segments and_then_def os_path_exists_def)
  then obtain w1 where body: "and_then acquire (\<lambda>_. repo_attempt env self repo p operation) w
                                = (Return (), w1)"
    and rel: "release w1 = (Return (), w')"
    by (rule try_finally_Return)
  from body obtain wa where acq: "acquire w = (Return (), wa)"
    and att: "repo_attempt env self repo p operation wa = (Return (), w1)"
    by (rule and_then_Return) simp
  from att obtain r wb where
    sub: "subprocess_run env (repo_commands repo p operation) (timeout self) wa = (Return r, wb)"
    and rest: "(case r of
                  Inr _ \<Rightarrow>
                    logger INFO (''Repo: '' @ name repo @ '' '' @ op_name operation @ '' success!'')
                | Inl TimeoutExpired \<Rightarrow>
                    and_then (logger ERROR
                                (''Git operation timed out archiving '' @ name repo @ ''.'')) (\<lambda>_.
                    and_then (os_path_exists p) (\<lambda>left_over. when_do left_over (shutil_rmtree p)))
                | Inl (CalledProcessError err) \<Rightarrow>
                    and_then (logger ERROR
                                (''Failed to '' @ op_name operation @ '' '' @ name repo @ nl @ err)) (\<lambda>_.
                    and_then (os_path_exists p) (\<lambda>left_over. when_do left_over (shutil_rmtree p))))
                wb = (Return (), w1)"
    unfolding repo_attempt_def by (rule and_then_Return)
  have "r = Inl x"
    using failed acq sub by simp
  then have "\<not> path_exists (fs w1) p"
    using rest by (cases x) (auto dest: logged_cleanup_removes)
  then show "\<not> path_exists (fs w') p"
    using release_fs [OF rel] by simp
next
  fix x
  assume ret: "archive_gist env self g p operation w = (Return (), w')"
    and failed: "fst (subprocess_run env (gist_commands g p operation) (timeout self)
                   (snd (acquire w))) = Return (Inl x)"
  have "try_finally (and_then acquire (\<lambda>_. gist_attempt env self g p operation)) release w
          = (Return (), w')"
    using ret assms by (auto simp: archive_gist_segments and_then_def os_path_exists_def)
  then obtain w1 where body: "and_then acquire (\<lambda>_. gist_attempt env self g p operation) w
                                = (Return (), w1)"
    and rel: "release w1 = (Return (), w')"
    by (rule try_finally_Return)
  from body obtain wa where acq: "acquire w = (Return (), wa)"
    and att: "gist_attempt env self g p operation wa = (Return (), w1)"
    by (rule and_then_Return) simp
  from att obtain r wb where
    sub: "subprocess_run env (gist_commands g p operation) (timeout self) wa = (Return r, wb)"
    and rest: "(case r of
                  Inr _ \<Rightarrow>
                    logger INFO (''Gist: '' @ gist_id g @ '' '' @ op_name operation @ '' success!'')
                | Inl TimeoutExpired \<Rightarrow>
                    and_then (logger ERROR
                                (''Git operation timed out archiving '' @ gist_id g @ ''.'')) (\<lambda>_.
                    and_then (os_path_exists p) (\<lambda>left_over. when_do left_over (shutil_rmtree p)))
                | Inl (CalledProcessError err) \<Rightarrow>
                    and_then (logger ERROR
                                (''Failed to '' @ op_name operation @ '' '' @ gist_id g @ nl @ err)) (\<lambda>_.
                    and_then (os_path_exists p) (\<lambda>left_over. when_do left_over (shutil_rmtree p))))
                wb = (Return (), w1)"
    unfolding gist_attempt_def by (rule and_then_Return)
  have "r = Inl x"
    using failed acq sub by simp
  then have "\<not> path_exists (fs w1) p"
    using rest by (cases x) (auto dest: logged_cleanup_removes)
  then show "\<not> path_exists (fs w') p"
    using release_fs [OF rel] by simp
qed

theorem failed_archive_leaves_no_path_witness:
  "\<not> (path_exists (fs (world_of root_only)) ''/archive/repos/bob/r1'' \<and> Clone = Clone)
   \<and> fst (archive_repo (env_with TimedOut) (archiver ''bob'') bob_r1 ''/archive/repos/bob/r1'' Clone
          (world_of root_only)) = Return ()
   \<and> fst (subprocess_run (env_with TimedOut) (repo_commands bob_r1 ''/archive/repos/bob/r1'' Clone)
          (timeout (archiver ''bob'')) (snd (acquire (world_of root_only))))
       = Return (Inl TimeoutExpired)
   \<and> \<not> path_exists (fs (snd (archive_repo (env_with TimedOut) (archiver ''bob'') bob_r1
         ''/archive/repos/bob/r1'' Clone (world_of root_only)))) ''/archive/repos/bob/r1''
   \<and> path_exists (fs (world_of archived)) ''/archive/gists/g1''
   \<and> fst (archive_gist (env_with (Exited 1)) (archiver ''bob'') gist_g1 ''/archive/gists/g1'' Pull
          (world_of archived)) = Return ()
   \<and> \<not> path_exists (fs (snd (archive_gist (env_with (Exited 1)) (archiver ''bob'') gist_g1
         ''/archive/gists/g1'' Pull (world_of archived)))) ''/archive/gists/g1''"
proof -
  let ?p = "''/archive/repos/bob/r1''" and ?q = "''/archive/gists/g1''"
  have absent: "\<not> (path_exists (fs (world_of root_only)) ?p \<and> Clone = Clone)"
    by (simp add: path_exists_def world_of_def root_only_def resolve_bob_r1)
  have pulling: "\<not> (path_exists (fs (world_of archived)) ?q \<and> Pull = Clone)"
    by simp
  have "\<not> path_exists (fs (snd (archive_repo (env_with TimedOut) (archiver ''bob'') bob_r1 ?p Clone
          (world_of root_only)))) ?p"
    using failed_archive_leaves_no_path [OF absent, THEN conjunct1, rule_format, of "env_with TimedOut"
        "archiver ''bob''" bob_r1]
      returned_pair [OF timed_out_clone(1)] timed_out_clone(3)
    by blast
  moreover have "\<not> path_exists (fs (snd (archive_gist (env_with (Exited 1)) (archiver ''bob'') gist_g1
          ?q Pull (world_of archived)))) ?q"
    using failed_archive_leaves_no_path [OF pulling, THEN conjunct2, rule_format, of "env_with (Exited 1)"
        "archiver ''bob''" gist_g1]
      returned_pair [OF failed_pull(1)] failed_pull(3)
    by blast
  ultimately show ?thesis
    using absent timed_out_clone(1,3) failed_pull(1,4) by simp
qed

text \<open>
  C3. When the operation is a clone and the local path of the target exists already,
  \<open>archive_repo\<close> and \<open>archive_gist\<close> return with the world exactly as it was: the same
  filesystem, no subprocess (the trace has no new event) and the semaphore untouched.
\<close>

theorem clone_of_archived_target_is_noop:
  assumes "path_exists (fs w) p"
  shows "archive_repo env self repo p Clone w = (Return (), w)
       \<and> archive_gist env self g p Clone w = (Return (), w)"
  using assms
  by (simp add: archive_repo_def archive_gist_def and_then_def os_path_exists_def return_def)

theorem clone_of_archived_target_is_noop_witness:
  "path_exists (fs (world_of archived)) ''/archive/repos/bob/r1''
   \<and> archive_repo (env_with (Exited 0)) (archiver ''bob'') bob_r1 ''/archive/repos/bob/r1'' Clone
        (world_of archived) = (Return (), world_of archived)
   \<and> archive_gist (env_with (Exited 0)) (archiver ''bob'') gist_g1 ''/archive/repos/bob/r1'' Clone
        (world_of archived) = (Return (), world_of archived)"
proof -
  have ex: "path_exists (fs (world_of archived)) ''/archive/repos/bob/r1''"
    by (simp add: path_exists_def world_of_def archived_def resolve_bob_r1)
  show ?thesis
    using ex clone_of_archived_target_is_noop [OF ex] by simp
qed

text \<open>
  C4. In every state that the threads of a pass can reach, in any interleaving and
  whatever the subprocesses do, the number of available permits lies between zero and
  the configured number of threads, and it is that number less the permits held. A
  thread acquires at most once and never releases more than it acquired; a thread that
  has finished (after a success, a timeout, a failed command, or an exception raised by
  a handler) has released exactly what it acquired.
\<close>

theorem permits_never_leak:
  assumes "0 \<le> threads self"
    and "reachable env self (initial_pool self jobs w) s"
  shows "0 \<le> permits (thread_limiter (shared s))
       \<and> permits (thread_limiter (shared s)) \<le> threads self
       \<and> permits (thread_limiter (shared s)) + int (sum_list (map held (pool_threads s)))
           = threads self
       \<and> (\<forall>t \<in> set (pool_threads s).
             th_released t \<le> th_acquired t \<and> th_acquired t \<le> 1
             \<and> (is_finished t \<longrightarrow> th_released t = th_acquired t))"
proof -
  have ok: "pool_ok (threads self) s"
    using assms(2) initial_pool_ok [OF assms(1)] by (rule reachable_pool_ok)
  have "th_released t \<le> th_acquired t \<and> th_acquired t \<le> 1
        \<and> (is_finished t \<longrightarrow> th_released t = th_acquired t)"
    if "thread_ok t" for t
    using that by (cases "th_pc t") (simp_all add: thread_ok_def is_finished_def)
  then show ?thesis
    using ok by (simp add: pool_ok_def)
qed

theorem permits_never_leak_witness:
  "0 \<le> threads (archiver ''bob'')
   \<and> reachable (env_with TimedOut) (archiver ''bob'')
        (initial_pool (archiver ''bob'') [job_bob] (world_of root_only)) holding_pool
   \<and> permits (thread_limiter (shared holding_pool)) = 1
   \<and> threads (archiver ''bob'') = 2
   \<and> sum_list (map held (pool_threads holding_pool)) = 1"
proof -
  have t: "0 \<le> threads (archiver ''bob'')"
    by (simp add: archiver_def)
  show ?thesis
    using t holding_pool_reachable [of "env_with TimedOut" "''bob''"]
      permits_never_leak [OF t holding_pool_reachable [of "env_with TimedOut" "''bob''"]]
    by (simp add: holding_pool_def archiver_def held_def)
qed

text \<open>
  C5, amended. When the set-up of the directories goes through (the root is there, or
  both calls of \<open>os.makedirs\<close> return), \<open>initialize_project\<close> raises the error about
  the missing operation exactly when some list of targets is given and no operation flag
  is set, raises the error about the missing list exactly when an operation flag is set
  and every list is empty, and returns exactly when both or neither are given.
\<close>

theorem validation_raises_iff_inconsistent:
  assumes "set_up_returns self w"
  shows "(fst (initialize_project self w) = Raise (ValueError no_operation_message)
            \<longleftrightarrow> any_target self \<and> \<not> any_operation self)
       \<and> (fst (initialize_project self w) = Raise (ValueError no_list_message)
            \<longleftrightarrow> \<not> any_target self \<and> any_operation self)
       \<and> (fst (initialize_project self w) = Return ()
            \<longleftrightarrow> (any_target self \<longleftrightarrow> any_operation self))"
proof -
  obtain w2 where "initialize_project self w = validation self w2"
    using set_up_reaches_validation [OF assms] by blast
  then show ?thesis
    using messages_differ by (auto simp: validation_outcome)
qed

theorem validation_raises_iff_inconsistent_witness:
  "set_up_returns (idle_archiver ''bob'') (world_of root_only)
   \<and> \<not> path_exists (fs (world_of root_only)) (location (idle_archiver ''bob''))
   \<and> any_target (idle_archiver ''bob'') \<and> \<not> any_operation (idle_archiver ''bob'')
   \<and> fst (initialize_project (idle_archiver ''bob'') (world_of root_only))
       = Raise (ValueError no_operation_message)
   \<and> set_up_returns (archiver ''bob'') (world_of archived)
   \<and> any_target (archiver ''bob'') \<and> any_operation (archiver ''bob'')
   \<and> fst (initialize_project (archiver ''bob'') (world_of archived)) = Return ()"
proof -
  have "fst (initialize_project (idle_archiver ''bob'') (world_of root_only))
          = Raise (ValueError no_operation_message)"
    using validation_raises_iff_inconsistent [OF set_up_on_concrete_inputs(1)]
      idle_archiver_facts(1,2)
    by blast
  moreover have "fst (initialize_project (archiver ''bob'') (world_of archived)) = Return ()"
    using validation_raises_iff_inconsistent [OF set_up_on_concrete_inputs(2)]
      set_up_on_concrete_inputs(3,4)
    by blast
  ultimately show ?thesis
    using set_up_on_concrete_inputs idle_archiver_facts(1,2) idle_on_root_only(2)
    by (simp only: simp_thms)
qed

text \<open>
  The claim C5 as stated fails where the set-up of the directories raises before the
  tests are reached: with the users list \<open>bob\<close>, no operation flag and the root
  \<open>/f/archive\<close> below the regular file \<open>/f\<close>, the configuration is inconsistent, and
  \<open>initialize_project\<close> raises the error of \<open>os.makedirs\<close>, not the configuration
  error.
\<close>

theorem configuration_error_not_reached_counterexample:
  "any_target misplaced_archiver \<and> \<not> any_operation misplaced_archiver
   \<and> fst (initialize_project misplaced_archiver (world_of below_a_file))
       = Raise (NotADirectoryError ''/f/archive/repos'')
   \<and> fst (initialize_project misplaced_archiver (world_of below_a_file))
       \<noteq> Raise (ValueError no_operation_message)
   \<and> fst (initialize_project misplaced_archiver (world_of below_a_file))
       \<noteq> Raise (ValueError no_list_message)"
  using misplaced_archiver_facts(1,2,4) by simp

text \<open>
  C6, amended. With an inconsistent configuration, the configuration error comes after
  the set-up of the directories. When the root exists, the call raises it and changes
  nothing but the log (one critical line with the message). When the root is absent and
  the call raises the configuration error, the directories \<open>repos\<close> and \<open>gists\<close> of
  the root have been created first.
\<close>

theorem configuration_error_follows_directory_setup:
  assumes "any_target self \<noteq> any_operation self"
  shows "(path_exists (fs w) (location self) \<longrightarrow>
            (\<exists>m. initialize_project self w
                   = (Raise (ValueError m), w\<lparr>trace := trace w @ [Log CRITICAL m]\<rparr>)))
       \<and> (\<not> path_exists (fs w) (location self)
            \<and> (\<exists>m. fst (initialize_project self w) = Raise (ValueError m)) \<longrightarrow>
            path_exists (fs (snd (initialize_project self w)))
              (os_path_join (location self) [''repos''])
            \<and> path_exists (fs (snd (initialize_project self w)))
                (os_path_join (location self) [''gists'']))"
proof (rule conjI; rule impI)
  assume "path_exists (fs w) (location self)"
  then have "initialize_project self w = validation self w"
    by (rule initialize_project_present)
  then show "\<exists>m. initialize_project self w
                = (Raise (ValueError m), w\<lparr>trace := trace w @ [Log CRITICAL m]\<rparr>)"
    using assms by (auto simp: validation_def and_then_def logger_def emit_def raise_def)
next
  let ?f = "fs (snd (initialize_project self w))"
  assume a: "\<not> path_exists (fs w) (location self)
             \<and> (\<exists>m. fst (initialize_project self w) = Raise (ValueError m))"
  then have absent: "\<not> path_exists (fs w) (location self)"
    and quiet: "\<forall>e. fst (initialize_project self w) = Raise e \<longrightarrow> (\<exists>m. e = ValueError m)"
    by auto
  note made = bootstrap_creates [OF absent quiet]
  have same: "resolve ?f p = resolve (fs w) p" for p
    using made(4) by (rule resolve_cwd)
  show "path_exists ?f (os_path_join (location self) [''repos''])
        \<and> path_exists ?f (os_path_join (location self) [''gists''])"
    using made(2,3) by (simp add: path_exists_def same resolve_repos resolve_gists os_path_join_nonempty)
qed

theorem configuration_error_follows_directory_setup_witness:
  "any_target (idle_archiver ''bob'') \<noteq> any_operation (idle_archiver ''bob'')
   \<and> path_exists (fs (world_of archived)) (location (idle_archiver ''bob''))
   \<and> initialize_project (idle_archiver ''bob'') (world_of archived)
       = (Raise (ValueError no_operation_message),
          (world_of archived)\<lparr>trace := [Log CRITICAL no_operation_message]\<rparr>)
   \<and> \<not> path_exists (fs (world_of root_only)) (location (idle_archiver ''bob''))
   \<and> fst (initialize_project (idle_archiver ''bob'') (world_of root_only))
       = Raise (ValueError no_operation_message)
   \<and> path_exists (fs (snd (initialize_project (idle_archiver ''bob'') (world_of root_only))))
       (os_path_join (location (idle_archiver ''bob'')) [''repos''])
   \<and> path_exists (fs (snd (initialize_project (idle_archiver ''bob'') (world_of root_only))))
       (os_path_join (location (idle_archiver ''bob'')) [''gists''])"
proof -
  have differ: "any_target (idle_archiver ''bob'') \<noteq> any_operation (idle_archiver ''bob'')"
    using idle_archiver_facts(1,2) by simp
  note thm1 = configuration_error_follows_directory_setup [OF differ, of "world_of archived"]
  note thm2 = configuration_error_follows_directory_setup [OF differ, of "world_of root_only"]
  have "initialize_project (idle_archiver ''bob'') (world_of archived)
       = (Raise (ValueError no_operation_message),
          (world_of archived)\<lparr>trace := [Log CRITICAL no_operation_message]\<rparr>)"
    using thm1 idle_on_archived by (auto simp: world_of_def)
  moreover have "path_exists (fs (snd (initialize_project (idle_archiver ''bob'') (world_of root_only))))
       (os_path_join (location (idle_archiver ''bob'')) [''repos''])
   \<and> path_exists (fs (snd (initialize_project (idle_archiver ''bob'') (world_of root_only))))
       (os_path_join (location (idle_archiver ''bob'')) [''gists''])"
    using thm2 idle_on_root_only(1,2) by blast
  ultimately show ?thesis
    using differ idle_on_archived(2) idle_on_root_only(1,2) by simp
qed

text \<open>
  The claim C6 as stated fails: with the users list \<open>bob\<close>, no operation flag and a
  root \<open>/archive\<close> that does not exist yet, \<open>initialize_project\<close> raises the
  configuration error, and by then \<open>/archive/repos\<close> and \<open>/archive/gists\<close>, absent
  before the call, exist.
\<close>

theorem configuration_error_before_any_directory_counterexample:
  "any_target (idle_archiver ''bob'') \<and> \<not> any_operation (idle_archiver ''bob'')
   \<and> fst (initialize_project (idle_archiver ''bob'') (world_of root_only))
       = Raise (ValueError no_operation_message)
   \<and> \<not> path_exists (fs (world_of root_only)) ''/archive/repos''
   \<and> \<not> path_exists (fs (world_of root_only)) ''/archive/gists''
   \<and> path_exists (fs (snd (initialize_project (idle_archiver ''bob'') (world_of root_only))))
       ''/archive/repos''
   \<and> path_exists (fs (snd (initialize_project (idle_archiver ''bob'') (world_of root_only))))
       ''/archive/gists''"
  using idle_archiver_facts(1,2) idle_on_root_only(1,3,4,5,6) by simp

text \<open>
  C7. With a token, the threads started in the personal context are those of the
  descriptors whose owner login, in lower case, is the authenticated user name, in the
  order given; every other descriptor is skipped. In the user context and in the
  organisation context one thread is started for every descriptor, whoever owns it.
\<close>

theorem owner_filter_in_personal_context_only:
  "(truthy (token self) \<longrightarrow>
      map job_target (repo_threads self repos Personal operation)
        = map RepoTarget
            (filter (\<lambda>r. Some (str_lower (owner_login r)) = authenticated_username self) repos))
   \<and> map job_target (repo_threads self repos User operation) = map RepoTarget repos
   \<and> map job_target (repo_threads self repos Orgs operation) = map RepoTarget repos"
  by (simp add: repo_threads_personal repo_threads_other)

theorem owner_filter_in_personal_context_only_witness:
  "truthy (token (archiver ''alice,bob''))
   \<and> map job_target (repo_threads (archiver ''alice,bob'') [alice_r1, orgx_r2] Personal Clone)
       = [RepoTarget alice_r1]
   \<and> map job_target (repo_threads (archiver ''alice,bob'') [alice_r1, orgx_r2] User Clone)
       = [RepoTarget alice_r1, RepoTarget orgx_r2]
   \<and> map job_target (repo_threads (archiver ''alice,bob'') [alice_r1, orgx_r2] Orgs Clone)
       = [RepoTarget alice_r1, RepoTarget orgx_r2]"
proof -
  have t: "truthy (token (archiver ''alice,bob''))"
    by (simp add: truthy_def archiver_def)
  show ?thesis
    using t owner_filter_in_personal_context_only
      [of "archiver ''alice,bob''" "[alice_r1, orgx_r2]" Clone]
    by (simp add: archiver_def alice_r1_def orgx_r2_def str_lower_def lower_char_def)
qed

text \<open>
  C8. A pass starts from the threads that \<open>iterate_repos_to_archive\<close> or
  \<open>iterate_gists_to_archive\<close> creates. Whenever the starting thread is back from the
  call, every one of these threads has been started and has finished: the loop of joins
  lets the call return only then.
\<close>

theorem pass_returns_after_every_thread_finished:
  assumes "jobs = repo_threads self repos context operation \<or> jobs = gist_threads self gs operation"
    and "reachable env self (initial_pool self jobs w) s"
    and "pool_main s = Returned"
  shows "map th_job (pool_threads s) = jobs \<and> (\<forall>t \<in> set (pool_threads s). is_finished t)"
proof -
  have "barrier_ok jobs s"
    using assms(2) initial_barrier_ok by (rule reachable_barrier_ok)
  then show ?thesis
    using assms(3) by (simp add: barrier_ok_def)
qed

theorem pass_returns_after_every_thread_finished_witness:
  "\<exists>s. reachable (env_with (Exited 0)) (archiver ''bob'')
          (initial_pool (archiver ''bob'') (repo_threads (archiver ''bob'') [bob_r1] User Clone)
             (world_of root_only)) s
      \<and> pool_main s = Returned
      \<and> map th_job (pool_threads s) = [job_bob]
      \<and> is_finished (hd (pool_threads s))"
proof -
  let ?env = "env_with (Exited 0)" and ?self = "archiver ''bob''"
  let ?jobs = "repo_threads ?self [bob_r1] User Clone"
  from sequential_pass_reachable [of ?self ?env ?jobs "world_of root_only"]
    returned_pair [OF clone_pass_returns]
  obtain s where s: "reachable ?env ?self (initial_pool ?self ?jobs (world_of root_only)) s"
    "pool_main s = Returned"
    unfolding iterate_repos_to_archive_def by blast
  have "map th_job (pool_threads s) = ?jobs \<and> (\<forall>t \<in> set (pool_threads s). is_finished t)"
    using s by (intro pass_returns_after_every_thread_finished [of ?jobs ?self "[bob_r1]" User Clone]) simp_all
  then have "map th_job (pool_threads s) = [job_bob] \<and> (\<forall>t \<in> set (pool_threads s). is_finished t)"
    unfolding job_bob_is_started .
  then have "map th_job (pool_threads s) = [job_bob]" and "is_finished (hd (pool_threads s))"
    by (auto simp: map_eq_Cons_conv)
  then show ?thesis
    using s by (intro exI [of _ s]) simp
qed

text \<open>
  C9, amended. The local path of every thread started for a repository is the root joined
  with \<open>repos\<close>, the owner's login in lower case and the repository's name; for a gist it
  is the root joined with \<open>gists\<close> and the gist's id. When the root is absent at the
  start and the set-up of the directories raises nothing, then after
  \<open>initialize_project\<close> the root and its \<open>repos\<close> and \<open>gists\<close> are directories.
\<close>

theorem local_paths_and_root_layout:
  "(\<forall>j \<in> set (repo_threads self repos context operation).
      \<exists>r \<in> set repos. job_target j = RepoTarget r \<and>
        job_path j = os_path_join (location self) [''repos'', str_lower (owner_login r), name r])
   \<and> (\<forall>j \<in> set (gist_threads self gs operation).
      \<exists>g \<in> set gs. job_target j = GistTarget g \<and>
        job_path j = os_path_join (location self) [''gists'', gist_id g])
   \<and> (\<not> path_exists (fs w) (location self)
        \<and> (\<forall>e. fst (initialize_project self w) = Raise e \<longrightarrow> (\<exists>m. e = ValueError m)) \<longrightarrow>
        nodes (fs (snd (initialize_project self w)))
          (resolve (fs (snd (initialize_project self w))) (location self)) = Some Dir
        \<and> nodes (fs (snd (initialize_project self w)))
            (resolve (fs (snd (initialize_project self w)))
               (os_path_join (location self) [''repos''])) = Some Dir
        \<and> nodes (fs (snd (initialize_project self w)))
            (resolve (fs (snd (initialize_project self w)))
               (os_path_join (location self) [''gists''])) = Some Dir)"
proof (rule conjI [OF _ conjI])
  show "\<forall>j \<in> set (repo_threads self repos context operation).
      \<exists>r \<in> set repos. job_target j = RepoTarget r \<and>
        job_path j = os_path_join (location self) [''repos'', str_lower (owner_login r), name r]"
    using repo_threads_paths by blast
  show "\<forall>j \<in> set (gist_threads self gs operation).
      \<exists>g \<in> set gs. job_target j = GistTarget g \<and>
        job_path j = os_path_join (location self) [''gists'', gist_id g]"
    using gist_threads_paths by blast
  show "\<not> path_exists (fs w) (location self)
        \<and> (\<forall>e. fst (initialize_project self w) = Raise e \<longrightarrow> (\<exists>m. e = ValueError m)) \<longrightarrow>
        nodes (fs (snd (initialize_project self w)))
          (resolve (fs (snd (initialize_project self w))) (location self)) = Some Dir
        \<and> nodes (fs (snd (initialize_project self w)))
            (resolve (fs (snd (initialize_project self w)))
               (os_path_join (location self) [''repos''])) = Some Dir
        \<and> nodes (fs (snd (initialize_project self w)))
            (resolve (fs (snd (initialize_project self w)))
               (os_path_join (location self) [''gists''])) = Some Dir"
  proof
    assume a: "\<not> path_exists (fs w) (location self)
        \<and> (\<forall>e. fst (initialize_project self w) = Raise e \<longrightarrow> (\<exists>m. e = ValueError m))"
    note made = bootstrap_creates [OF conjunct1 [OF a] conjunct2 [OF a]]
    have same: "resolve (fs (snd (initialize_project self w))) p = resolve (fs w) p" for p
      using made(4) by (rule resolve_cwd)
    show "nodes (fs (snd (initialize_project self w)))
          (resolve (fs (snd (initialize_project self w))) (location self)) = Some Dir
        \<and> nodes (fs (snd (initialize_project self w)))
            (resolve (fs (snd (initialize_project self w)))
               (os_path_join (location self) [''repos''])) = Some Dir
        \<and> nodes (fs (snd (initialize_project self w)))
            (resolve (fs (snd (initialize_project self w)))
               (os_path_join (location self) [''gists''])) = Some Dir"
      using made(1,2,3) by (simp add: same resolve_repos resolve_gists)
  qed
qed

theorem local_paths_and_root_layout_witness:
  "job_path (hd (repo_threads (archiver ''bob'') [bob_r1] User Clone)) = ''/archive/repos/bob/r1''
   \<and> job_path (hd (gist_threads (archiver ''bob'') [gist_g1] Clone)) = ''/archive/gists/g1''
   \<and> \<not> path_exists (fs (world_of root_only)) (location (archiver ''bob''))
   \<and> fst (initialize_project (archiver ''bob'') (world_of root_only)) = Return ()
   \<and> nodes (fs (snd (initialize_project (archiver ''bob'') (world_of root_only)))) [''archive'']
       = Some Dir
   \<and> nodes (fs (snd (initialize_project (archiver ''bob'') (world_of root_only))))
        [''archive'', ''repos''] = Some Dir
   \<and> nodes (fs (snd (initialize_project (archiver ''bob'') (world_of root_only))))
        [''archive'', ''gists''] = Some Dir"
proof -
  let ?self = "archiver ''bob''" and ?w = "world_of root_only"
  note inst = local_paths_and_root_layout [of ?self "[bob_r1]" User Clone "[gist_g1]" ?w]
  have quiet: "\<forall>e. fst (initialize_project ?self ?w) = Raise e \<longrightarrow> (\<exists>m. e = ValueError m)"
    by (simp add: fresh_start(1))
  have "job_path (hd (repo_threads ?self [bob_r1] User Clone)) = ''/archive/repos/bob/r1''"
    using inst
    by (simp add: bob_r1_def archiver_def os_path_join_def join_step_def str_lower_def lower_char_def)
  moreover have "job_path (hd (gist_threads ?self [gist_g1] Clone)) = ''/archive/gists/g1''"
    using inst by (simp add: gist_g1_def archiver_def os_path_join_def join_step_def)
  moreover have "nodes (fs (snd (initialize_project ?self ?w))) [''archive''] = Some Dir
    \<and> nodes (fs (snd (initialize_project ?self ?w))) [''archive'', ''repos''] = Some Dir
    \<and> nodes (fs (snd (initialize_project ?self ?w))) [''archive'', ''gists''] = Some Dir"
    using inst [THEN conjunct2, THEN conjunct2] fresh_start(2) quiet
    by (simp add: fresh_start(3) join_archive resolve_archive_any [OF fresh_start(4)])
  ultimately show ?thesis
    using fresh_start(1,2) by simp
qed

text \<open>
  The claim C9 as stated fails on an owner whose login has a capital letter: for the
  repository \<open>r1\<close> of \<open>Bob\<close> the local path is \<open>/archive/repos/bob/r1\<close>, which is
  not the root joined with \<open>repos\<close>, the login \<open>Bob\<close> and the name.
\<close>

theorem local_path_uses_owner_login_counterexample:
  "repo_threads (archiver ''bob'') [bob_r1] User Clone = [job_bob]
   \<and> job_target job_bob = RepoTarget bob_r1
   \<and> owner_login bob_r1 = ''Bob''
   \<and> job_path job_bob = ''/archive/repos/bob/r1''
   \<and> os_path_join (location (archiver ''bob'')) [''repos'', owner_login bob_r1, name bob_r1]
       = ''/archive/repos/Bob/r1''
   \<and> job_path job_bob
       \<noteq> os_path_join (location (archiver ''bob'')) [''repos'', owner_login bob_r1, name bob_r1]"
  by (simp add: job_bob_def bob_r1_def archiver_def os_path_join_def join_step_def
      str_lower_def lower_char_def)

text \<open>
  C10. For the object that the constructor builds: the three lists are the configured
  strings put in lower case and then split at the commas, which is the same as splitting
  and putting every name in lower case, so every stored name is its own lower-case form;
  with a token the stored user name is the forge's login in lower case, and the personal
  pass keeps exactly the descriptors whose owner login equals it once both are in lower
  case; and the local path of a repository has the owner's login in lower case.
\<close>

theorem names_are_matched_in_lower_case:
  assumes "init login_of v c p us os gs t n tok loc = Inr self"
  shows "users self = name_list us \<and> orgs self = name_list os \<and> gists self = name_list gs
       \<and> (\<forall>u. u \<noteq> [] \<longrightarrow>
             name_list (Some u) = str_split CHR '','' (str_lower u)
             \<and> name_list (Some u) = map str_lower (str_split CHR '','' u))
       \<and> (\<forall>x \<in> set (users self) \<union> set (orgs self) \<union> set (gists self). str_lower x = x)
       \<and> (truthy tok \<longrightarrow>
             (\<exists>login. login_of (the tok) = Inr login
                \<and> authenticated_username self = Some (str_lower login)
                \<and> (\<forall>repos operation.
                      map job_target (repo_threads self repos Personal operation)
                        = map RepoTarget
                            (filter (\<lambda>r. str_lower (owner_login r) = str_lower login) repos))))
       \<and> (\<forall>j \<in> set (repo_threads self repos context operation).
             \<exists>r \<in> set repos. job_target j = RepoTarget r \<and>
               job_path j = os_path_join loc [''repos'', str_lower (owner_login r), name r])"
proof -
  have fields: "users self = name_list us" "orgs self = name_list os" "gists self = name_list gs"
    "location self = loc" "token self = tok"
    using assms by (auto simp: init_def Let_def split: if_splits sum.splits)
  have lists: "\<forall>u. u \<noteq> [] \<longrightarrow>
             name_list (Some u) = str_split CHR '','' (str_lower u)
             \<and> name_list (Some u) = map str_lower (str_split CHR '','' u)"
    by (simp add: name_list_def str_split_lower)
  have lower: "\<forall>x \<in> set (users self) \<union> set (orgs self) \<union> set (gists self). str_lower x = x"
    using fields name_list_lower by auto
  have auth: "\<exists>login. login_of (the tok) = Inr login
                \<and> authenticated_username self = Some (str_lower login)
                \<and> (\<forall>repos operation.
                      map job_target (repo_threads self repos Personal operation)
                        = map RepoTarget
                            (filter (\<lambda>r. str_lower (owner_login r) = str_lower login) repos))"
    if tok: "truthy tok"
  proof -
    obtain login where login: "login_of (the tok) = Inr login"
      and name: "authenticated_username self = Some (str_lower login)"
      using assms tok by (auto simp: init_def Let_def split: sum.splits)
    have "truthy (token self)" using tok fields(5) by simp
    then have "map job_target (repo_threads self repos Personal operation)
                 = map RepoTarget (filter (\<lambda>r. str_lower (owner_login r) = str_lower login) repos)"
      for repos operation
      using repo_threads_personal [of self repos operation] name by simp
    then show ?thesis using login name by blast
  qed
  have paths: "\<forall>j \<in> set (repo_threads self repos context operation).
             \<exists>r \<in> set repos. job_target j = RepoTarget r \<and>
               job_path j = os_path_join loc [''repos'', str_lower (owner_login r), name r]"
    using repo_threads_paths fields(4) by blast
  show ?thesis
    using fields(1,2,3) lists lower auth paths by blast
qed

theorem names_are_matched_in_lower_case_witness:
  "init (\<lambda>t. Inr ''Alice'') False True False (Some ''Bob,ALICE'') None None 30 2 (Some ''secret'')
      ''/archive'' = Inr (archiver ''Bob,ALICE'')
   \<and> users (archiver ''Bob,ALICE'') = [''bob'', ''alice'']
   \<and> authenticated_username (archiver ''Bob,ALICE'') = Some ''alice''
   \<and> map job_target
        (repo_threads (archiver ''Bob,ALICE'')
           [\<lparr>owner_login = ''ALICE'', name = ''r1'', ssh_url = ''u1''\<rparr>, orgx_r2] Personal Clone)
       = [RepoTarget \<lparr>owner_login = ''ALICE'', name = ''r1'', ssh_url = ''u1''\<rparr>]
   \<and> map job_path
        (repo_threads (archiver ''Bob,ALICE'')
           [\<lparr>owner_login = ''ALICE'', name = ''r1'', ssh_url = ''u1''\<rparr>, orgx_r2] Personal Clone)
       = [''/archive/repos/alice/r1'']"
proof -
  let ?self = "archiver ''Bob,ALICE''"
  let ?r = "\<lparr>owner_login = ''ALICE'', name = ''r1'', ssh_url = ''u1''\<rparr>"
  note made = archiver_is_init [of "''Bob,ALICE''"]
  note inst = names_are_matched_in_lower_case [OF made, of "[?r, orgx_r2]" Personal Clone]
  have "truthy (Some ''secret'')" by (simp add: truthy_def)
  then have "authenticated_username ?self = Some ''alice''
   \<and> map job_target (repo_threads ?self [?r, orgx_r2] Personal Clone) = [RepoTarget ?r]"
    using inst by (auto simp: orgx_r2_def str_lower_def lower_char_def archiver_def truthy_def)
  moreover have "users ?self = [''bob'', ''alice'']"
    using inst by (simp add: name_list_def str_lower_def lower_char_def)
  moreover have "map job_path (repo_threads ?self [?r, orgx_r2] Personal Clone)
                   = [''/archive/repos/alice/r1'']"
    by (simp add: archiver_def orgx_r2_def truthy_def os_path_join_def join_step_def
        str_lower_def lower_char_def)
  ultimately show ?thesis
    using made by (simp only: simp_thms)
qed

end
